theory Spec2Isabelle
  imports Complex_Main
begin

section \<open>Values shared by the server and the tools\<close>

text \<open>
  A JavaScript exception. \<open>Error m\<close> is \<^verbatim>\<open>new Error(m)\<close>; \<open>TypeError m\<close> is what the
  runtime raises on a property read of \<^verbatim>\<open>undefined\<close>. \<open>InvalidSchedule\<close> and \<open>NotFound\<close>
  are the two failures of the scheduler's interface.
\<close>

datatype exn = Error string | TypeError string | InvalidSchedule | NotFound

text \<open>The template literal \<^verbatim>\<open>`${error}`\<close>: name, then the message when there is one.\<close>

fun exn_to_string :: "exn \<Rightarrow> string" where
  "exn_to_string (Error m) = (if m = [] then ''Error'' else ''Error: '' @ m)"
| "exn_to_string (TypeError m) = (if m = [] then ''TypeError'' else ''TypeError: '' @ m)"
| "exn_to_string InvalidSchedule = ''InvalidSchedule''"
| "exn_to_string NotFound = ''NotFound''"

text \<open>\<^verbatim>\<open>type DocumentRow = { id: number; text: string }\<close> (row ids are natural numbers).\<close>

record document_row =
  row_id :: nat
  row_text :: string

type_synonym embedding = "real list"

text \<open>Decimal rendering of a number, as \<^verbatim>\<open>record.id.toString()\<close> and \<^verbatim>\<open>`${n}`\<close> give it.\<close>

definition digit_of :: "nat \<Rightarrow> char" where
  "digit_of d = ''0123456789'' ! d"

fun nat_to_string :: "nat \<Rightarrow> string" where
  "nat_to_string n =
     (if n < 10 then [digit_of n] else nat_to_string (n div 10) @ [digit_of (n mod 10)])"

declare nat_to_string.simps [simp del]

definition int_to_string :: "int \<Rightarrow> string" where
  "int_to_string i = (if i < 0 then ''-'' @ nat_to_string (nat (- i)) else nat_to_string (nat i))"

subsection \<open>Schedules\<close>

text \<open>
  The \<^verbatim>\<open>when\<close> argument of the scheduling tool. Its schema (\<^verbatim>\<open>unstable_scheduleSchema\<close>) is
  imported from the agents library; the four variants are the ones \<^verbatim>\<open>scheduleTask\<close>
  discriminates on \<^verbatim>\<open>when.type\<close>. Dates are seconds since the epoch, delays are whole
  seconds.
\<close>

datatype schedule_spec =
    Scheduled int      \<comment> \<open>\<^verbatim>\<open>{type: "scheduled", date}\<close>\<close>
  | Delayed int        \<comment> \<open>\<^verbatim>\<open>{type: "delayed", delayInSeconds}\<close>\<close>
  | Cron string        \<comment> \<open>\<^verbatim>\<open>{type: "cron", cron}\<close>\<close>
  | NoSchedule         \<comment> \<open>\<^verbatim>\<open>{type: "no-schedule"}\<close>\<close>

fun spec_type :: "schedule_spec \<Rightarrow> string" where
  "spec_type (Scheduled d) = ''scheduled''"
| "spec_type (Delayed n) = ''delayed''"
| "spec_type (Cron c) = ''cron''"
| "spec_type NoSchedule = ''no-schedule''"

text \<open>The first argument of \<^verbatim>\<open>agent.schedule\<close>: a \<^verbatim>\<open>Date\<close>, a number or a string.\<close>

datatype sched_input = InDate int | InNumber int | InString string

text \<open>A registered schedule: id, bound callback, payload, next fire time, and the cron
  expression when it recurs.\<close>

record schedule =
  sched_id :: string
  callback :: string
  payload :: string
  time :: int
  cron :: "string option"

subsection \<open>Tool arguments and results, invocations, messages\<close>

text \<open>One constructor per parameter schema of the tools.\<close>

datatype tool_args =
    CityArgs string                    \<comment> \<open>\<^verbatim>\<open>z.object({ city: z.string() })\<close>\<close>
  | LocationArgs string                \<comment> \<open>\<^verbatim>\<open>z.object({ location: z.string() })\<close>\<close>
  | QueryArgs string                   \<comment> \<open>\<^verbatim>\<open>z.object({ query: z.string() })\<close>\<close>
  | ScheduleArgs schedule_spec string  \<comment> \<open>\<^verbatim>\<open>unstable_scheduleSchema\<close>: when, description\<close>
  | EmptyArgs                          \<comment> \<open>\<^verbatim>\<open>z.object({})\<close>\<close>
  | TaskIdArgs string                  \<comment> \<open>\<^verbatim>\<open>z.object({ taskId: z.string() })\<close>\<close>

datatype tool_result = RText string | RSchedules "schedule list"

text \<open>The data model of section 3 of the specification for invocations.\<close>

datatype inv_state = Pending | Confirmed | Denied | Executed | Errored

datatype inv_result = Output tool_result | Failure exn | Declined

record tool_invocation =
  inv_id :: string
  tool_name :: string
  arguments :: tool_args
  state :: inv_state
  result :: "inv_result option"

record message =
  msg_id :: string
  role :: string
  content :: string
  invocations :: "tool_invocation list"
  createdAt :: int

section \<open>The world outside the program\<close>

text \<open>
  Every call that leaves the program is written to a trace, in order. The answer to a call
  comes from the environment record below.
\<close>

datatype effect =
    DbRun string "string list"          \<comment> \<open>\<^verbatim>\<open>env.DB.prepare(q).bind(...).run()\<close> or \<^verbatim>\<open>.all()\<close>\<close>
  | EmbeddingsCreate string             \<comment> \<open>\<^verbatim>\<open>ai.embeddings.create({input})\<close>\<close>
  | VectorizeQuery embedding nat        \<comment> \<open>\<^verbatim>\<open>env.VECTORIZE.query(vectors, {topK})\<close>\<close>
  | VectorizeUpsert "(string \<times> embedding) list"  \<comment> \<open>\<^verbatim>\<open>env.VECTORIZE.upsert([{id, values}])\<close>\<close>
  | ResponsesCreate "(string \<times> string) list"     \<comment> \<open>\<^verbatim>\<open>ai.responses.create({input})\<close>: role, content\<close>
  | WorkflowCreate string               \<comment> \<open>\<^verbatim>\<open>env.RAG_WORKFLOW.create({params: {text}})\<close>\<close>
  | ScheduleCall sched_input string string     \<comment> \<open>\<^verbatim>\<open>agent.schedule(when, callback, payload)\<close>\<close>
  | CancelScheduleCall string           \<comment> \<open>\<^verbatim>\<open>agent.cancelSchedule(id)\<close>\<close>
  | GetSchedulesCall                    \<comment> \<open>\<^verbatim>\<open>agent.getSchedules()\<close>\<close>
  | PersistMessages "message list"      \<comment> \<open>the durable write of \<^verbatim>\<open>saveMessages\<close>\<close>
  | ModelInvocation "message list"      \<comment> \<open>the chat flow calling the language model\<close>

text \<open>What a trace holds of database statements and of vector queries, in order.\<close>

fun db_runs :: "effect list \<Rightarrow> (string \<times> string list) list" where
  "db_runs [] = []"
| "db_runs (DbRun q ps # es) = (q, ps) # db_runs es"
| "db_runs (_ # es) = db_runs es"

fun vector_queries :: "effect list \<Rightarrow> (embedding \<times> nat) list" where
  "vector_queries [] = []"
| "vector_queries (VectorizeQuery v k # es) = (v, k) # vector_queries es"
| "vector_queries (_ # es) = vector_queries es"

record world =
  trace :: "effect list"
  messages :: "message list"      \<comment> \<open>\<^verbatim>\<open>this.messages\<close>\<close>
  schedules :: "schedule list"    \<comment> \<open>the active schedules of the agent\<close>
  now :: int                      \<comment> \<open>the clock, in seconds\<close>
  ids_drawn :: nat                \<comment> \<open>how many generated ids have been handed out\<close>

text \<open>
  The bindings and collaborators. Each answers a request; it may look at the trace so far,
  so an answer can depend on earlier calls.
\<close>

record env =
  DB :: "effect list \<Rightarrow> string \<Rightarrow> string list \<Rightarrow> exn + document_row list"
  VECTORIZE_query :: "effect list \<Rightarrow> embedding \<Rightarrow> nat \<Rightarrow> exn + string list"
  VECTORIZE_upsert :: "effect list \<Rightarrow> (string \<times> embedding) list \<Rightarrow> exn + unit"
  embeddings_create :: "effect list \<Rightarrow> string \<Rightarrow> exn + embedding list"
  responses_create :: "effect list \<Rightarrow> (string \<times> string) list \<Rightarrow> exn + string"
  RAG_WORKFLOW_create :: "effect list \<Rightarrow> string \<Rightarrow> exn + string"
  generateId :: "nat \<Rightarrow> string"
  getNextCronTime :: "string \<Rightarrow> int \<Rightarrow> int option"
  date_to_string :: "int \<Rightarrow> string"
  step_retries :: nat

text \<open>A computation: it may throw, and it changes the world either way.\<close>

type_synonym 'a io = "world \<Rightarrow> (exn + 'a) \<times> world"

definition io_return :: "'a \<Rightarrow> 'a io" where
  "io_return x w = (Inr x, w)"

definition io_throw :: "exn \<Rightarrow> 'a io" where
  "io_throw e w = (Inl e, w)"

definition io_bind :: "'a io \<Rightarrow> ('a \<Rightarrow> 'b io) \<Rightarrow> 'b io" where
  "io_bind m f w = (case m w of (Inl e, w') \<Rightarrow> (Inl e, w') | (Inr x, w') \<Rightarrow> f x w')"

text \<open>\<^verbatim>\<open>try { m } catch (error) { h(error) }\<close>\<close>

definition io_catch :: "'a io \<Rightarrow> (exn \<Rightarrow> 'a io) \<Rightarrow> 'a io" where
  "io_catch m h w = (case m w of (Inl e, w') \<Rightarrow> h e w' | (Inr x, w') \<Rightarrow> (Inr x, w'))"

text \<open>An external call: the request goes to the trace, the collaborator answers.\<close>

definition call :: "effect \<Rightarrow> (effect list \<Rightarrow> exn + 'a) \<Rightarrow> 'a io" where
  "call e answer w = (answer (trace w), w\<lparr>trace := trace w @ [e]\<rparr>)"

section \<open>The ingestion workflow (\<^verbatim>\<open>RAGWorkflow\<close>, server.ts)\<close>

subsection \<open>The workflow engine\<close>

datatype step_value = VRecord document_row | VEmbedding embedding | VUndefined

datatype 'a outcome = Done 'a | Failed exn | Crashed

text \<open>
  The state of one run that survives a crash: the checkpointed result of every completed
  step, by step name. \<open>steps_left\<close> injects a crash: \<open>Some k\<close> kills the instance once
  \<open>k\<close> further steps have completed, before the next one starts; \<open>None\<close> never does.
\<close>

record run_state =
  checkpoints :: "string \<rightharpoonup> step_value"
  steps_left :: "nat option"

text \<open>
  Modelled from the spec: the retries of the workflow engine, which is not under src/.
  Section 4.4 leaves the attempt bound to the engine: a callback that throws is tried
  again, \<open>n\<close> more times.
\<close>

fun attempt :: "nat \<Rightarrow> step_value io \<Rightarrow> step_value io" where
  "attempt 0 cb w = cb w"
| "attempt (Suc n) cb w =
     (case cb w of (Inl e, w') \<Rightarrow> attempt n cb w' | (Inr v, w') \<Rightarrow> (Inr v, w'))"

text \<open>
  Modelled from the spec: \<^verbatim>\<open>step.do\<close> of the workflow engine (\<^verbatim>\<open>cloudflare:workers\<close>), which is
  not under src/. Section 4.4: a step already marked complete is skipped and its
  checkpointed output reused; otherwise the callback runs, its result is checkpointed, and
  a step that fails for good aborts the run. The retry bound is the engine's contract and
  is the parameter \<open>step_retries\<close>.
\<close>

definition step_do ::
  "env \<Rightarrow> string \<Rightarrow> step_value io \<Rightarrow> run_state \<times> world \<Rightarrow> step_value outcome \<times> run_state \<times> world"
where
  "step_do env name cb sw =
     (case sw of (s, w) \<Rightarrow>
        (case checkpoints s name of
           Some v \<Rightarrow> (Done v, s, w)
         | None \<Rightarrow>
             if steps_left s = Some 0 then (Crashed, s, w)
             else
               (case attempt (step_retries env) cb w of
                  (Inl e, w') \<Rightarrow> (Failed e, s, w')
                | (Inr v, w') \<Rightarrow>
                    (Done v,
                     s\<lparr>checkpoints := (checkpoints s)(name \<mapsto> v),
                       steps_left := map_option (\<lambda>k. k - 1) (steps_left s)\<rparr>,
                     w'))))"

subsection \<open>The three steps\<close>

text \<open>
  \<^verbatim>\<open>const { results } = await env.DB.prepare(query).bind(text).run();
  const record = results[0];
  if (!record) throw new Error("Failed to create document");
  return record;\<close>
\<close>

definition create_database_record :: "env \<Rightarrow> string \<Rightarrow> step_value io" where
  "create_database_record env text =
     (let query = ''INSERT INTO docs (text) VALUES (?) RETURNING *'' in
      io_bind (call (DbRun query [text]) (\<lambda>h. DB env h query [text]))
        (\<lambda>results.
           case results of
             [] \<Rightarrow> io_throw (Error ''Failed to create document'')
           | record # _ \<Rightarrow> io_return (VRecord record)))"

text \<open>
  \<^verbatim>\<open>const embedding = await ai.embeddings.create({model, input: text, encoding_format});
  return embedding.data[0].embedding;\<close>
  Reading \<^verbatim>\<open>.embedding\<close> of a missing \<^verbatim>\<open>data[0]\<close> is a TypeError.
\<close>

definition generate_embedding :: "env \<Rightarrow> string \<Rightarrow> step_value io" where
  "generate_embedding env text =
     io_bind (call (EmbeddingsCreate text) (\<lambda>h. embeddings_create env h text))
       (\<lambda>data.
          case data of
            [] \<Rightarrow> io_throw (TypeError ''data[0] is undefined'')
          | e # _ \<Rightarrow> io_return (VEmbedding e))"

text \<open>
  \<^verbatim>\<open>if (!record) return;
  return env.VECTORIZE.upsert([{ id: record.id.toString(), values: embedding }]);\<close>
  The two arguments are what the earlier \<^verbatim>\<open>step.do\<close> calls returned. A checkpoint under a
  step's name only ever holds what that step's callback returned, so \<open>record\<close> is a row
  and \<open>embedding\<close> a vector. The other shapes cannot arise; they are closed off with the
  TypeError that \<^verbatim>\<open>record.id.toString()\<close> raises on a value without an id.
\<close>

definition insert_vector :: "env \<Rightarrow> step_value \<Rightarrow> step_value \<Rightarrow> step_value io" where
  "insert_vector env record embedding =
     (case record of
        VUndefined \<Rightarrow> io_return VUndefined
      | VRecord r \<Rightarrow>
          (case embedding of
             VEmbedding values \<Rightarrow>
               (let vectors = [(nat_to_string (row_id r), values)] in
                io_bind (call (VectorizeUpsert vectors) (\<lambda>h. VECTORIZE_upsert env h vectors))
                  (\<lambda>_. io_return VUndefined))
           | _ \<Rightarrow> io_throw (TypeError ''values is not a vector''))
      | VEmbedding _ \<Rightarrow> io_throw (TypeError ''record.id is undefined''))"

subsection \<open>\<^verbatim>\<open>RAGWorkflow.run\<close>\<close>

definition and_then ::
  "'a outcome \<times> 's \<Rightarrow> ('a \<Rightarrow> 's \<Rightarrow> 'b outcome \<times> 's) \<Rightarrow> 'b outcome \<times> 's" where
  "and_then r f =
     (case r of
        (Done x, s) \<Rightarrow> f x s
      | (Failed e, s) \<Rightarrow> (Failed e, s)
      | (Crashed, s) \<Rightarrow> (Crashed, s))"

definition run :: "env \<Rightarrow> string \<Rightarrow> run_state \<times> world \<Rightarrow> step_value outcome \<times> run_state \<times> world" where
  "run env text sw =
     and_then (step_do env ''create database record'' (create_database_record env text) sw)
       (\<lambda>record sw1.
          and_then (step_do env ''generate embedding'' (generate_embedding env text) sw1)
            (\<lambda>embedding sw2.
               step_do env ''insert vector'' (insert_vector env record embedding) sw2))"

text \<open>A fresh run has no checkpoint. Resuming starts \<open>run\<close> again on what the crashed
  instance left behind, with no further crash.\<close>

definition fresh :: "nat option \<Rightarrow> run_state" where
  "fresh k = \<lparr>checkpoints = Map.empty, steps_left = k\<rparr>"

definition resume :: "env \<Rightarrow> string \<Rightarrow> run_state \<times> world \<Rightarrow> step_value outcome \<times> run_state \<times> world" where
  "resume env text sw = run env text (fst sw\<lparr>steps_left := None\<rparr>, snd sw)"

section \<open>The agent: messages and schedules\<close>

definition emit :: "effect \<Rightarrow> unit io" where
  "emit e = call e (\<lambda>_. Inr ())"

text \<open>
  Modelled from the spec: \<^verbatim>\<open>saveMessages\<close> of the chat agent base class (agents library), which
  is not under src/. Sections 2 and 4.3: the message list is written durably, and only then
  is the chat flow re-entered and the language model invoked.
\<close>

definition saveMessages :: "message list \<Rightarrow> unit io" where
  "saveMessages msgs =
     io_bind (emit (PersistMessages msgs))
       (\<lambda>_. io_bind (\<lambda>w. (Inr (), w\<lparr>messages := msgs\<rparr>))
          (\<lambda>_. emit (ModelInvocation msgs)))"

text \<open>
  \<^verbatim>\<open>async executeTask(description, task) {
    await this.saveMessages([...this.messages,
      { id: generateId(), role: "user",
        content: `Running scheduled task: ${description}`, createdAt: new Date() }]);
  }\<close>
\<close>

definition executeTask :: "env \<Rightarrow> string \<Rightarrow> schedule \<Rightarrow> unit io" where
  "executeTask env description task w =
     saveMessages
       (messages w @
        [\<lparr>msg_id = generateId env (ids_drawn w), role = ''user'',
          content = ''Running scheduled task: '' @ description,
          invocations = [], createdAt = now w\<rparr>])
       (w\<lparr>ids_drawn := Suc (ids_drawn w)\<rparr>)"

subsection \<open>The scheduler\<close>

text \<open>
  Modelled from the spec: \<^verbatim>\<open>schedule\<close>, \<^verbatim>\<open>getSchedules\<close> and \<^verbatim>\<open>cancelSchedule\<close> of the agent base
  class (agents library), which are not under src/. Section 4.3: an absolute timestamp is
  used verbatim, a delay becomes now + delay, a cron expression is validated and its next
  fire time computed by the external evaluator \<open>getNextCronTime\<close>; a malformed expression
  is \<open>InvalidSchedule\<close>. Listing gives the active schedules in order; cancelling an unknown
  id is \<open>NotFound\<close>. The four definitions that follow are this model.
\<close>

text \<open>
  Modelled from the spec: the registration of a schedule under a fresh id (section 4.3:
  \<^verbatim>\<open>schedule\<close> returns an id usable for cancel and list); not under src/.
\<close>

definition register :: "env \<Rightarrow> string \<Rightarrow> string \<Rightarrow> int \<Rightarrow> string option \<Rightarrow> schedule io" where
  "register env cb pl t c w =
     (let s = \<lparr>sched_id = generateId env (ids_drawn w), callback = cb, payload = pl,
                time = t, cron = c\<rparr>
      in (Inr s, w\<lparr>schedules := schedules w @ [s], ids_drawn := Suc (ids_drawn w)\<rparr>))"

text \<open>
  Modelled from the spec: \<^verbatim>\<open>agent.schedule(when, callback, payload)\<close>, not under src/; the
  normalisation of section 4.3. The call itself goes to the trace first.
\<close>

definition agent_schedule :: "env \<Rightarrow> sched_input \<Rightarrow> string \<Rightarrow> string \<Rightarrow> schedule io" where
  "agent_schedule env input cb pl =
     io_bind (emit (ScheduleCall input cb pl))
       (\<lambda>_ w.
          case input of
            InDate d \<Rightarrow> register env cb pl d None w
          | InNumber n \<Rightarrow> register env cb pl (now w + n) None w
          | InString c \<Rightarrow>
              (case getNextCronTime env c (now w) of
                 None \<Rightarrow> (Inl InvalidSchedule, w)
               | Some t \<Rightarrow> register env cb pl t (Some c) w))"

text \<open>
  Modelled from the spec: \<^verbatim>\<open>agent.getSchedules()\<close>, not under src/; section 4.3, \<open>list\<close> gives
  the ordered active schedules.
\<close>

definition agent_getSchedules :: "schedule list io" where
  "agent_getSchedules = io_bind (emit GetSchedulesCall) (\<lambda>_ w. (Inr (schedules w), w))"

text \<open>
  Modelled from the spec: \<^verbatim>\<open>agent.cancelSchedule(id)\<close>, not under src/; section 4.3, \<open>cancel\<close>
  removes the schedule and fails with \<open>NotFound\<close> for an unknown id.
\<close>

definition agent_cancelSchedule :: "string \<Rightarrow> bool io" where
  "agent_cancelSchedule i =
     io_bind (emit (CancelScheduleCall i))
       (\<lambda>_ w.
          if i \<in> set (map sched_id (schedules w))
          then (Inr True, w\<lparr>schedules := filter (\<lambda>s. sched_id s \<noteq> i) (schedules w)\<rparr>)
          else (Inl NotFound, w))"

text \<open>
  Modelled from the spec: the firing of due schedules by the agent base class, not under
  src/. Section 4.3: when a fire time has elapsed the bound callback is invoked once with
  the payload; a one-off schedule is then removed, a cron schedule gets its next fire time.
  The only callback the \<^verbatim>\<open>Chat\<close> class defines is \<^verbatim>\<open>executeTask\<close>. The definitions \<open>due\<close>,
  \<open>invoke_callback\<close>, \<open>reschedule\<close>, \<open>fire\<close> and \<open>alarm\<close> are this model: \<open>alarm env t\<close>
  moves the clock to \<open>t\<close> and fires, in order, the schedules that are due then.
\<close>

definition due :: "int \<Rightarrow> schedule \<Rightarrow> bool" where
  "due t s = (time s \<le> t)"

definition invoke_callback :: "env \<Rightarrow> schedule \<Rightarrow> unit io" where
  "invoke_callback env s =
     (if callback s = ''executeTask'' then executeTask env (payload s) s else io_return ())"

definition reschedule :: "env \<Rightarrow> int \<Rightarrow> schedule \<Rightarrow> schedule list \<Rightarrow> schedule list" where
  "reschedule env t s ss =
     (case cron s of
        None \<Rightarrow> filter (\<lambda>x. sched_id x \<noteq> sched_id s) ss
      | Some c \<Rightarrow>
          (case getNextCronTime env c t of
             None \<Rightarrow> filter (\<lambda>x. sched_id x \<noteq> sched_id s) ss
           | Some t' \<Rightarrow> map (\<lambda>x. if sched_id x = sched_id s then x\<lparr>time := t'\<rparr> else x) ss))"

definition fire :: "env \<Rightarrow> schedule \<Rightarrow> world \<Rightarrow> world" where
  "fire env s w =
     (let w' = snd (invoke_callback env s w)
      in w'\<lparr>schedules := reschedule env (now w') s (schedules w')\<rparr>)"

definition alarm :: "env \<Rightarrow> int \<Rightarrow> world \<Rightarrow> world" where
  "alarm env t w = foldl (\<lambda>w' s. fire env s w') (w\<lparr>now := t\<rparr>) (filter (due t) (schedules w))"

section \<open>The tools (tools.ts)\<close>

text \<open>First the bodies of the \<open>execute\<close> functions that do more than return a constant.
  Writes to the console (\<^verbatim>\<open>console.log\<close>, \<^verbatim>\<open>console.error\<close>) are left out of the model.\<close>

subsection \<open>\<^verbatim>\<open>getRAGTool\<close>\<close>

definition join :: "string \<Rightarrow> string list \<Rightarrow> string" where
  "join sep xs = (case xs of [] \<Rightarrow> [] | y # ys \<Rightarrow> foldl (\<lambda>acc z. acc @ sep @ z) y ys)"

definition systemPrompt :: string where
  "systemPrompt =
     ''When answering the question or responding, use the context provided, if it is provided and relevant.''"

text \<open>
  \<^verbatim>\<open>vectoryQuery.matches\<close> is the list of the matches' ids, best first (an absent list reads as
  the empty one). \<^verbatim>\<open>if (vecId)\<close> holds for a non-empty id.
\<close>

definition getRAGTool_execute :: "env \<Rightarrow> string \<Rightarrow> tool_result io" where
  "getRAGTool_execute env query =
     io_bind (call (EmbeddingsCreate query) (\<lambda>h. embeddings_create env h query))
       (\<lambda>data.
          case data of
            [] \<Rightarrow> io_throw (TypeError ''data[0] is undefined'')
          | vectors # _ \<Rightarrow>
              io_bind (call (VectorizeQuery vectors 5) (\<lambda>h. VECTORIZE_query env h vectors 5))
                (\<lambda>matches.
                   let vecId = (case matches of [] \<Rightarrow> None | m # _ \<Rightarrow> Some m) in
                   io_bind
                     (case vecId of
                        None \<Rightarrow> io_return []
                      | Some i \<Rightarrow>
                          if i = [] then io_return []
                          else
                            (let q = ''SELECT * FROM docs WHERE id = ?'' in
                             io_bind (call (DbRun q [i]) (\<lambda>h. DB env h q [i]))
                               (\<lambda>results. io_return (map row_text results))))
                     (\<lambda>notes.
                        let contextMessage =
                              (if notes \<noteq> []
                               then ''Context:'' @ [CHR 0x0A] @
                                    join [CHR 0x0A] (map (\<lambda>note. ''- '' @ note) notes)
                               else []);
                            input =
                              (if notes \<noteq> [] then [(''developer'', contextMessage)] else []) @
                              [(''developer'', systemPrompt), (''user'', query)]
                        in io_bind (call (ResponsesCreate input) (\<lambda>h. responses_create env h input))
                             (\<lambda>output_text. io_return (RText output_text)))))"

subsection \<open>\<^verbatim>\<open>scheduleTask\<close>, \<^verbatim>\<open>getScheduledTasks\<close>, \<^verbatim>\<open>cancelScheduledTask\<close>\<close>

text \<open>
  The conditional that picks \<^verbatim>\<open>input\<close>: the field that goes with \<^verbatim>\<open>when.type\<close>; its last arm is
  \<^verbatim>\<open>throwError("not a valid schedule input")\<close>, outside the \<^verbatim>\<open>try\<close>.
\<close>

fun schedule_input :: "schedule_spec \<Rightarrow> exn + sched_input" where
  "schedule_input (Scheduled date) = Inr (InDate date)"
| "schedule_input (Delayed delayInSeconds) = Inr (InNumber delayInSeconds)"
| "schedule_input (Cron c) = Inr (InString c)"
| "schedule_input NoSchedule = Inl (Error ''not a valid schedule input'')"

text \<open>\<^verbatim>\<open>`${input}`\<close>\<close>

fun input_to_string :: "env \<Rightarrow> sched_input \<Rightarrow> string" where
  "input_to_string env (InDate d) = date_to_string env d"
| "input_to_string env (InNumber n) = int_to_string n"
| "input_to_string env (InString c) = c"

text \<open>
  \<^verbatim>\<open>if (when.type === "no-schedule") return "Not a valid schedule input";
  const input = ...;
  try { agent.schedule(input, "executeTask", description); }
  catch (error) { return `Error scheduling task: ${error}`; }
  return `Task scheduled for type "${when.type}" : ${input}`;\<close>
  The call is not awaited: the \<^verbatim>\<open>catch\<close> covers what \<^verbatim>\<open>schedule\<close> throws synchronously, which
  is how the scheduler's failure is modelled.
\<close>

definition scheduleTask_execute :: "env \<Rightarrow> schedule_spec \<Rightarrow> string \<Rightarrow> tool_result io" where
  "scheduleTask_execute env when_spec description =
     (if when_spec = NoSchedule then io_return (RText ''Not a valid schedule input'')
      else
        io_bind (\<lambda>w. (schedule_input when_spec, w))
          (\<lambda>input.
             io_catch
               (io_bind (agent_schedule env input ''executeTask'' description)
                  (\<lambda>_. io_return
                          (RText (''Task scheduled for type '' @ [CHR 0x22] @ spec_type when_spec @
                                  [CHR 0x22] @ '' : '' @ input_to_string env input))))
               (\<lambda>error. io_return (RText (''Error scheduling task: '' @ exn_to_string error)))))"

definition getScheduledTasks_execute :: "tool_result io" where
  "getScheduledTasks_execute =
     io_catch
       (io_bind agent_getSchedules
          (\<lambda>tasks. if tasks = [] then io_return (RText ''No scheduled tasks found.'')
                    else io_return (RSchedules tasks)))
       (\<lambda>error. io_return (RText (''Error listing scheduled tasks: '' @ exn_to_string error)))"

definition cancelScheduledTask_execute :: "string \<Rightarrow> tool_result io" where
  "cancelScheduledTask_execute taskId =
     io_catch
       (io_bind (agent_cancelSchedule taskId)
          (\<lambda>_. io_return (RText (''Task '' @ taskId @ '' has been successfully canceled.''))))
       (\<lambda>error. io_return
                   (RText (''Error canceling task '' @ taskId @ '': '' @ exn_to_string error)))"

subsection \<open>The tool definitions\<close>

text \<open>
  \<^verbatim>\<open>tool({ description, parameters, execute? })\<close>. The SDK checks the arguments of a call
  against \<open>parameters\<close> before it calls \<open>execute\<close>, so the body of an \<open>execute\<close> only sees
  arguments of its own schema; \<open>reject\<close> stands for that check failing.
\<close>

record tool =
  description :: string
  parameters :: "tool_args \<Rightarrow> bool"
  execute :: "(tool_args \<Rightarrow> tool_result io) option"

definition reject :: "tool_result io" where
  "reject = io_throw (TypeError ''Invalid arguments for tool'')"

text \<open>\<^verbatim>\<open>// Omitting execute function makes this tool require human confirmation\<close>\<close>

definition getWeatherInformation :: tool where
  "getWeatherInformation =
     \<lparr>description = ''show the weather in a given city to the user'',
      parameters = (\<lambda>a. case a of CityArgs _ \<Rightarrow> True | _ \<Rightarrow> False),
      execute = None\<rparr>"

definition getLocalTime :: tool where
  "getLocalTime =
     \<lparr>description = ''get the local time for a specified location'',
      parameters = (\<lambda>a. case a of LocationArgs _ \<Rightarrow> True | _ \<Rightarrow> False),
      execute = Some (\<lambda>a. case a of LocationArgs location \<Rightarrow> io_return (RText ''10am'')
                                   | _ \<Rightarrow> reject)\<rparr>"

definition getRAGTool :: "env \<Rightarrow> tool" where
  "getRAGTool env =
     \<lparr>description = ''get additional context from knowledge base'',
      parameters = (\<lambda>a. case a of QueryArgs _ \<Rightarrow> True | _ \<Rightarrow> False),
      execute = Some (\<lambda>a. case a of QueryArgs query \<Rightarrow> getRAGTool_execute env query
                                   | _ \<Rightarrow> reject)\<rparr>"

definition scheduleTask :: "env \<Rightarrow> tool" where
  "scheduleTask env =
     \<lparr>description = ''A tool to schedule a task to be executed at a later time'',
      parameters = (\<lambda>a. case a of ScheduleArgs _ _ \<Rightarrow> True | _ \<Rightarrow> False),
      execute = Some (\<lambda>a. case a of ScheduleArgs when_spec d \<Rightarrow> scheduleTask_execute env when_spec d
                                   | _ \<Rightarrow> reject)\<rparr>"

definition getScheduledTasks :: tool where
  "getScheduledTasks =
     \<lparr>description = ''List all tasks that have been scheduled'',
      parameters = (\<lambda>a. case a of EmptyArgs \<Rightarrow> True | _ \<Rightarrow> False),
      execute = Some (\<lambda>a. case a of EmptyArgs \<Rightarrow> getScheduledTasks_execute | _ \<Rightarrow> reject)\<rparr>"

definition cancelScheduledTask :: tool where
  "cancelScheduledTask =
     \<lparr>description = ''Cancel a scheduled task using its ID'',
      parameters = (\<lambda>a. case a of TaskIdArgs _ \<Rightarrow> True | _ \<Rightarrow> False),
      execute = Some (\<lambda>a. case a of TaskIdArgs taskId \<Rightarrow> cancelScheduledTask_execute taskId
                                   | _ \<Rightarrow> reject)\<rparr>"

subsection \<open>The two exported tables\<close>

definition tools :: "env \<Rightarrow> (string \<times> tool) list" where
  "tools env =
     [(''getWeatherInformation'', getWeatherInformation),
      (''getLocalTime'', getLocalTime),
      (''scheduleTask'', scheduleTask env),
      (''getScheduledTasks'', getScheduledTasks),
      (''cancelScheduledTask'', cancelScheduledTask),
      (''getRAGTool'', getRAGTool env)]"

definition executions :: "(string \<times> (tool_args \<Rightarrow> tool_result io)) list" where
  "executions =
     [(''getWeatherInformation'',
       (\<lambda>a. case a of CityArgs city \<Rightarrow> io_return (RText (''The weather in '' @ city @ '' is sunny''))
                     | _ \<Rightarrow> reject))]"

section \<open>The ingestion trigger (\<^verbatim>\<open>app.post("/text")\<close>, server.ts)\<close>

record response =
  body :: string
  status :: nat

text \<open>
  \<^verbatim>\<open>const { text } = await c.req.json();
  if (!text) return c.text("Missing text", 400);
  await c.env.RAG_WORKFLOW.create({ params: { text } });
  return c.text("Create note", 201);\<close>
  The argument is the \<^verbatim>\<open>text\<close> field of the parsed body, \<open>None\<close> when the body has none.
  \<^verbatim>\<open>!text\<close> holds for a missing field and for the empty string.
\<close>

definition post_text :: "env \<Rightarrow> string option \<Rightarrow> response io" where
  "post_text env text =
     (case text of
        None \<Rightarrow> io_return \<lparr>body = ''Missing text'', status = 400\<rparr>
      | Some t \<Rightarrow>
          if t = [] then io_return \<lparr>body = ''Missing text'', status = 400\<rparr>
          else
            io_bind (call (WorkflowCreate t) (\<lambda>h. RAG_WORKFLOW_create env h t))
              (\<lambda>_. io_return \<lparr>body = ''Create note'', status = 201\<rparr>))"

section \<open>The tool registry and the confirmation resolver\<close>

datatype classification = Auto | RequiresConfirmation

text \<open>
  Modelled from the spec: \<open>classify\<close> of the tool registry; the code that tells the two kinds
  of tool apart is in \<^verbatim>\<open>utils.ts\<close> and the SDK, not under src/. Section 4.1 and section 8:
  a tool requires confirmation iff no execution function is attached, else it is
  auto-executing.
\<close>

definition classify :: "tool \<Rightarrow> classification" where
  "classify t = (case execute t of None \<Rightarrow> RequiresConfirmation | Some _ \<Rightarrow> Auto)"

text \<open>A call of an execution function: the invocation's id, the tool's name, the arguments.\<close>

type_synonym call_record = "string \<times> string \<times> tool_args"

text \<open>
  Modelled from the spec: part of the resolver of \<^verbatim>\<open>utils.ts\<close>, not under src/. Section 4.2:
  an execution function's result, or the error it raised, becomes the terminal result.
\<close>

definition capture :: "tool_invocation \<Rightarrow> exn + tool_result \<Rightarrow> tool_invocation" where
  "capture iv r =
     (case r of
        Inr v \<Rightarrow> iv\<lparr>state := Executed, result := Some (Output v)\<rparr>
      | Inl e \<Rightarrow> iv\<lparr>state := Errored, result := Some (Failure e)\<rparr>)"

text \<open>
  Modelled from the spec: part of the resolver of \<^verbatim>\<open>utils.ts\<close>, not under src/. Section 4.2,
  cases 1 and 4: the function is run on the invocation's arguments, the outcome captured,
  and the call noted.
\<close>

definition execute_now ::
  "(tool_args \<Rightarrow> tool_result io) \<Rightarrow> tool_invocation \<Rightarrow> world \<Rightarrow>
     (tool_invocation \<times> call_record list) \<times> world" where
  "execute_now f iv w =
     (case f (arguments iv) w of
        (r, w') \<Rightarrow> ((capture iv r, [(inv_id iv, tool_name iv, arguments iv)]), w'))"

text \<open>
  Modelled from the spec: \<^verbatim>\<open>processToolCalls\<close> of \<^verbatim>\<open>utils.ts\<close>, which is not under src/.
  Section 4.2, per invocation still pending, in message order:
  \<^enum> auto-classified tool with no result yet: execute now, capture result or caught error;
  \<^enum> confirmation-required tool, no decision: leave untouched;
  \<^enum> confirmation-required tool, denied: a fixed declined result, no call;
  \<^enum> confirmation-required tool, approved: invoke the registered execution function with
    the original arguments, capture result or error.
  The section says nothing of a tool that is not in the mapping, nor of an approved tool
  with no registered function: both are left untouched here. The decisions are the map
  of section 6, invocation id to \<open>approved\<close>. Next to the history the function returns the
  calls of execution functions it made, in order.
\<close>

definition resolve_invocation ::
  "(string \<rightharpoonup> tool) \<Rightarrow> (string \<rightharpoonup> (tool_args \<Rightarrow> tool_result io)) \<Rightarrow> (string \<rightharpoonup> bool) \<Rightarrow>
     tool_invocation \<Rightarrow> world \<Rightarrow> (tool_invocation \<times> call_record list) \<times> world" where
  "resolve_invocation ts ex decisions iv w =
     (if state iv \<noteq> Pending then ((iv, []), w)
      else
        (case ts (tool_name iv) of
           None \<Rightarrow> ((iv, []), w)
         | Some t \<Rightarrow>
             (case execute t of
                Some f \<Rightarrow>
                  (case result iv of
                     Some _ \<Rightarrow> ((iv, []), w)
                   | None \<Rightarrow> execute_now f iv w)
              | None \<Rightarrow>
                  (case decisions (inv_id iv) of
                     None \<Rightarrow> ((iv, []), w)
                   | Some approved \<Rightarrow>
                       if approved
                       then
                         (case ex (tool_name iv) of
                            None \<Rightarrow> ((iv, []), w)
                          | Some f \<Rightarrow> execute_now f iv w)
                       else ((iv\<lparr>state := Denied, result := Some Declined\<rparr>, []), w)))))"

text \<open>
  Modelled from the spec: the walk of the resolver of \<^verbatim>\<open>utils.ts\<close> (not under src/) over the
  invocations of a message and over the messages of the history, in order (section 4.2).
\<close>

fun resolve_invocations ::
  "(string \<rightharpoonup> tool) \<Rightarrow> (string \<rightharpoonup> (tool_args \<Rightarrow> tool_result io)) \<Rightarrow> (string \<rightharpoonup> bool) \<Rightarrow>
     tool_invocation list \<Rightarrow> world \<Rightarrow> (tool_invocation list \<times> call_record list) \<times> world" where
  "resolve_invocations ts ex decisions [] w = (([], []), w)"
| "resolve_invocations ts ex decisions (iv # invs) w =
     (case resolve_invocation ts ex decisions iv w of
        ((iv', c1), w1) \<Rightarrow>
          (case resolve_invocations ts ex decisions invs w1 of
             ((invs', c2), w2) \<Rightarrow> ((iv' # invs', c1 @ c2), w2)))"

text \<open>
  Modelled from the spec: \<^verbatim>\<open>processToolCalls\<close> of \<^verbatim>\<open>utils.ts\<close>, not under src/; section 4.2, the
  whole history in message order.
\<close>

fun processToolCalls ::
  "(string \<rightharpoonup> tool) \<Rightarrow> (string \<rightharpoonup> (tool_args \<Rightarrow> tool_result io)) \<Rightarrow> (string \<rightharpoonup> bool) \<Rightarrow>
     message list \<Rightarrow> world \<Rightarrow> (message list \<times> call_record list) \<times> world" where
  "processToolCalls ts ex decisions [] w = (([], []), w)"
| "processToolCalls ts ex decisions (m # ms) w =
     (case resolve_invocations ts ex decisions (invocations m) w of
        ((invs', c1), w1) \<Rightarrow>
          (case processToolCalls ts ex decisions ms w1 of
             ((ms', c2), w2) \<Rightarrow> ((m\<lparr>invocations := invs'\<rparr> # ms', c1 @ c2), w2)))"

text \<open>The resolver run \<open>n\<close> times in a row over the history, each pass on the last one's
  output, with all calls collected.\<close>

fun passes ::
  "nat \<Rightarrow> (string \<rightharpoonup> tool) \<Rightarrow> (string \<rightharpoonup> (tool_args \<Rightarrow> tool_result io)) \<Rightarrow> (string \<rightharpoonup> bool) \<Rightarrow>
     message list \<Rightarrow> world \<Rightarrow> (message list \<times> call_record list) \<times> world" where
  "passes 0 ts ex decisions ms w = ((ms, []), w)"
| "passes (Suc n) ts ex decisions ms w =
     (case processToolCalls ts ex decisions ms w of
        ((ms1, c1), w1) \<Rightarrow>
          (case passes n ts ex decisions ms1 w1 of
             ((ms2, c2), w2) \<Rightarrow> ((ms2, c1 @ c2), w2)))"

definition all_invocations :: "message list \<Rightarrow> tool_invocation list" where
  "all_invocations ms = concat (map invocations ms)"

definition calls_of :: "string \<Rightarrow> call_record list \<Rightarrow> call_record list" where
  "calls_of i cs = filter (\<lambda>c. fst c = i) cs"

text \<open>
  The call site in \<^verbatim>\<open>onChatMessage\<close> (server.ts): the resolver gets \<^verbatim>\<open>this.messages\<close>, the static
  tools merged with the dynamically discovered ones (\<^verbatim>\<open>{...tools, ...mcp}\<close>, the later
  entry wins) and the executions table; the model is then invoked on its output.
\<close>

definition allTools :: "env \<Rightarrow> (string \<rightharpoonup> tool) \<Rightarrow> (string \<rightharpoonup> tool)" where
  "allTools env mcp = map_of (tools env) ++ mcp"

definition onChatMessage ::
  "env \<Rightarrow> (string \<rightharpoonup> tool) \<Rightarrow> (string \<rightharpoonup> bool) \<Rightarrow> world \<Rightarrow>
     (message list \<times> call_record list) \<times> world" where
  "onChatMessage env mcp decisions w =
     (case processToolCalls (allTools env mcp) (map_of executions) decisions (messages w) w of
        ((processedMessages, cs), w') \<Rightarrow>
          ((processedMessages, cs), w'\<lparr>trace := trace w' @ [ModelInvocation processedMessages]\<rparr>))"

section \<open>A sample deployment\<close>

abbreviation insert_query :: string where
  "insert_query \<equiv> ''INSERT INTO docs (text) VALUES (?) RETURNING *''"

abbreviation select_query :: string where
  "select_query \<equiv> ''SELECT * FROM docs WHERE id = ?''"

text \<open>An environment whose collaborators all answer, and an empty world, to run the
  definitions on concrete inputs.\<close>

definition sample_env :: env where
  "sample_env =
     \<lparr>DB = (\<lambda>h q ps. if q = insert_query then Inr [\<lparr>row_id = 7, row_text = concat ps\<rparr>]
                       else Inr [\<lparr>row_id = 7, row_text = ''stored note''\<rparr>]),
      VECTORIZE_query = (\<lambda>h v k. Inr [''7'', ''3'']),
      VECTORIZE_upsert = (\<lambda>h vs. Inr ()),
      embeddings_create = (\<lambda>h t. Inr [[1 / 2, 1 / 4]]),
      responses_create = (\<lambda>h input. Inr ''an answer''),
      RAG_WORKFLOW_create = (\<lambda>h t. Inr ''run-1''),
      generateId = (\<lambda>n. ''id-'' @ nat_to_string n),
      getNextCronTime = (\<lambda>c t. if c = ''* * * * *'' then Some (t + 60) else None),
      date_to_string = int_to_string,
      step_retries = 2\<rparr>"

definition world0 :: world where
  "world0 = \<lparr>trace = [], messages = [], schedules = [], now = 1000, ids_drawn = 0\<rparr>"

text \<open>A history of one assistant message with one pending call of the weather tool.\<close>

definition sample_invocation :: tool_invocation where
  "sample_invocation =
     \<lparr>inv_id = ''call-1'', tool_name = ''getWeatherInformation'',
      arguments = CityArgs ''Paris'', state = Pending, result = None\<rparr>"

definition sample_history :: "message list" where
  "sample_history =
     [\<lparr>msg_id = ''m1'', role = ''assistant'', content = [],
       invocations = [sample_invocation], createdAt = 999\<rparr>]"

section \<open>Properties of the ingestion workflow\<close>

lemmas io_defs = io_return_def io_throw_def io_bind_def io_catch_def call_def emit_def Let_def

lemma attempt_success: "cb w = (Inr v, w') \<Longrightarrow> attempt n cb w = (Inr v, w')"
  by (cases n) simp_all

lemma create_ok:
  "DB env (trace w) insert_query [text] = Inr (r # rs) \<Longrightarrow>
   create_database_record env text w =
     (Inr (VRecord r), w\<lparr>trace := trace w @ [DbRun insert_query [text]]\<rparr>)"
  by (simp add: create_database_record_def io_defs)


lemma embed_ok:
  "embeddings_create env (trace w) text = Inr (e # es) \<Longrightarrow>
   generate_embedding env text w =
     (Inr (VEmbedding e), w\<lparr>trace := trace w @ [EmbeddingsCreate text]\<rparr>)"
  by (simp add: generate_embedding_def io_defs)

lemma insert_ok:
  "VECTORIZE_upsert env (trace w) [(nat_to_string (row_id r), e)] = Inr () \<Longrightarrow>
   insert_vector env (VRecord r) (VEmbedding e) w =
     (Inr VUndefined, w\<lparr>trace := trace w @ [VectorizeUpsert [(nat_to_string (row_id r), e)]]\<rparr>)"
  by (simp add: insert_vector_def io_defs)

lemma step_do_unfold:
  "step_do env name cb (s, w) =
     (case checkpoints s name of
        Some v \<Rightarrow> (Done v, s, w)
      | None \<Rightarrow>
          if steps_left s = Some 0 then (Crashed, s, w)
          else
            (case attempt (step_retries env) cb w of
               (Inl e, w') \<Rightarrow> (Failed e, s, w')
             | (Inr v, w') \<Rightarrow>
                 (Done v,
                  s\<lparr>checkpoints := (checkpoints s)(name \<mapsto> v),
                    steps_left := map_option (\<lambda>k. k - 1) (steps_left s)\<rparr>,
                  w')))"
  by (simp add: step_do_def)

lemmas run_simps = Let_def resume_def run_def and_then_def step_do_unfold fresh_def
  attempt_success create_ok embed_ok insert_ok

text \<open>
  C3. When the database returns a row, the embedding service an embedding and the vector
  index accepts the upsert, a run issues exactly one insert, one embedding request and one
  upsert keyed by the decimal id of the returned row. If the instance is killed after \<open>k\<close>
  completed steps, it has issued the first \<open>k\<close> of these three effects; resuming it issues
  the remaining ones and nothing else, so no completed step is repeated (no second insert)
  and the upsert uses the checkpointed row and embedding.
\<close>

theorem ingestion_exactly_once:
  assumes db: "DB env (trace w) insert_query [text] = Inr (r # rs)"
    and emb: "embeddings_create env (trace w @ [DbRun insert_query [text]]) text = Inr (e # es)"
    and ups: "VECTORIZE_upsert env (trace w @ [DbRun insert_query [text], EmbeddingsCreate text])
                [(nat_to_string (row_id r), e)] = Inr ()"
  shows "let effects = [DbRun insert_query [text], EmbeddingsCreate text,
                        VectorizeUpsert [(nat_to_string (row_id r), e)]];
             crashed = run env text (fresh (Some k), w);
             resumed = resume env text (snd crashed)
         in fst (run env text (fresh None, w)) = Done VUndefined
          \<and> trace (snd (snd (run env text (fresh None, w)))) = trace w @ effects
          \<and> fst crashed = (if k < 3 then Crashed else Done VUndefined)
          \<and> trace (snd (snd crashed)) = trace w @ take k effects
          \<and> fst resumed = Done VUndefined
          \<and> trace (snd (snd resumed)) = trace w @ effects"
proof -
  consider "k = 0" | "k = 1" | "k = 2" | "k \<ge> 3" by linarith
  then show ?thesis
  proof cases
    case 1
    then show ?thesis using assms by (simp add: run_simps)
  next
    case 2
    then show ?thesis using assms by (simp add: run_simps)
  next
    case 3
    then show ?thesis using assms by (simp add: run_simps)
  next
    case 4
    then obtain j where "k = Suc (Suc (Suc j))"
      by (metis le_Suc_ex numeral_3_eq_3 add_Suc)
    then show ?thesis using assms by (simp add: run_simps)
  qed
qed

theorem ingestion_exactly_once_witness:
  "DB sample_env (trace world0) insert_query [''hello''] =
     Inr [\<lparr>row_id = 7, row_text = ''hello''\<rparr>]
   \<and> fst (run sample_env ''hello'' (fresh None, world0)) = Done VUndefined
   \<and> trace (snd (snd (run sample_env ''hello'' (fresh None, world0)))) =
       [DbRun insert_query [''hello''], EmbeddingsCreate ''hello'',
        VectorizeUpsert [(''7'', [1 / 2, 1 / 4])]]
   \<and> fst (run sample_env ''hello'' (fresh (Some 1), world0)) = Crashed
   \<and> trace (snd (snd (run sample_env ''hello'' (fresh (Some 1), world0)))) =
       [DbRun insert_query [''hello'']]
   \<and> trace (snd (snd (resume sample_env ''hello''
         (snd (run sample_env ''hello'' (fresh (Some 1), world0)))))) =
       [DbRun insert_query [''hello''], EmbeddingsCreate ''hello'',
        VectorizeUpsert [(''7'', [1 / 2, 1 / 4])]]"
  using ingestion_exactly_once [of sample_env world0 "''hello''"
      "\<lparr>row_id = 7, row_text = ''hello''\<rparr>" "[]" "[1 / 2, 1 / 4]" "[]" 1]
  by (simp add: sample_env_def world0_def Let_def nat_to_string.simps digit_of_def)




section \<open>Properties of the scheduler tools and the fire handler\<close>


text \<open>
  C6. On the no-schedule variant the scheduling tool returns the text
  \<^verbatim>\<open>Not a valid schedule input\<close> as its result: it does not throw, and it leaves the world as
  it was, so the scheduler is not called and no schedule is registered. The same holds of
  the \<open>execute\<close> function the tool definition carries.
\<close>

theorem no_schedule_rejected:
  "scheduleTask_execute env NoSchedule d w = (Inr (RText ''Not a valid schedule input''), w)
   \<and> (case execute (scheduleTask env) of
        None \<Rightarrow> False
      | Some f \<Rightarrow> f (ScheduleArgs NoSchedule d) w = (Inr (RText ''Not a valid schedule input''), w))"
  by (simp add: scheduleTask_execute_def scheduleTask_def io_return_def)

lemma agent_schedule_date:
  "agent_schedule env (InDate t) cb pl w =
     (Inr \<lparr>sched_id = generateId env (ids_drawn w), callback = cb, payload = pl, time = t, cron = None\<rparr>,
      w\<lparr>trace := trace w @ [ScheduleCall (InDate t) cb pl],
        schedules := schedules w @ [\<lparr>sched_id = generateId env (ids_drawn w), callback = cb, payload = pl, time = t, cron = None\<rparr>],
        ids_drawn := Suc (ids_drawn w)\<rparr>)"
  by (simp add: agent_schedule_def register_def io_defs)

lemma agent_schedule_number:
  "agent_schedule env (InNumber n) cb pl w =
     (Inr \<lparr>sched_id = generateId env (ids_drawn w), callback = cb, payload = pl, time = now w + n, cron = None\<rparr>,
      w\<lparr>trace := trace w @ [ScheduleCall (InNumber n) cb pl],
        schedules := schedules w @ [\<lparr>sched_id = generateId env (ids_drawn w), callback = cb, payload = pl, time = now w + n, cron = None\<rparr>],
        ids_drawn := Suc (ids_drawn w)\<rparr>)"
  by (simp add: agent_schedule_def register_def io_defs)

lemma agent_schedule_cron:
  "agent_schedule env (InString c) cb pl w =
     (case getNextCronTime env c (now w) of
        None \<Rightarrow> (Inl InvalidSchedule, w\<lparr>trace := trace w @ [ScheduleCall (InString c) cb pl]\<rparr>)
      | Some t \<Rightarrow>
     (Inr \<lparr>sched_id = generateId env (ids_drawn w), callback = cb, payload = pl, time = t, cron = Some c\<rparr>,
      w\<lparr>trace := trace w @ [ScheduleCall (InString c) cb pl],
        schedules := schedules w @ [\<lparr>sched_id = generateId env (ids_drawn w), callback = cb, payload = pl, time = t, cron = Some c\<rparr>],
        ids_drawn := Suc (ids_drawn w)\<rparr>))"
  by (simp add: agent_schedule_def register_def io_defs split: option.split)

lemma scheduleTask_scheduled:
  "scheduleTask_execute env (Scheduled t) d w =
     (Inr (RText (''Task scheduled for type '' @ [CHR 0x22] @ ''scheduled'' @ [CHR 0x22] @ '' : '' @ date_to_string env t)),
      w\<lparr>trace := trace w @ [ScheduleCall (InDate t) ''executeTask'' d],
        schedules := schedules w @ [\<lparr>sched_id = generateId env (ids_drawn w), callback = ''executeTask'', payload = d, time = t, cron = None\<rparr>],
        ids_drawn := Suc (ids_drawn w)\<rparr>)"
  by (simp add: scheduleTask_execute_def agent_schedule_date io_bind_def io_catch_def io_return_def)

lemma scheduleTask_delayed:
  "scheduleTask_execute env (Delayed n) d w =
     (Inr (RText (''Task scheduled for type '' @ [CHR 0x22] @ ''delayed'' @ [CHR 0x22] @ '' : '' @ int_to_string n)),
      w\<lparr>trace := trace w @ [ScheduleCall (InNumber n) ''executeTask'' d],
        schedules := schedules w @ [\<lparr>sched_id = generateId env (ids_drawn w), callback = ''executeTask'', payload = d, time = now w + n, cron = None\<rparr>],
        ids_drawn := Suc (ids_drawn w)\<rparr>)"
  by (simp add: scheduleTask_execute_def agent_schedule_number io_bind_def io_catch_def io_return_def)

lemma scheduleTask_cron:
  "scheduleTask_execute env (Cron c) d w =
     (case getNextCronTime env c (now w) of
        None \<Rightarrow> (Inr (RText ''Error scheduling task: InvalidSchedule''), w\<lparr>trace := trace w @ [ScheduleCall (InString c) ''executeTask'' d]\<rparr>)
      | Some t \<Rightarrow>
     (Inr (RText (''Task scheduled for type '' @ [CHR 0x22] @ ''cron'' @ [CHR 0x22] @ '' : '' @ c)),
      w\<lparr>trace := trace w @ [ScheduleCall (InString c) ''executeTask'' d],
        schedules := schedules w @ [\<lparr>sched_id = generateId env (ids_drawn w), callback = ''executeTask'', payload = d, time = t, cron = Some c\<rparr>],
        ids_drawn := Suc (ids_drawn w)\<rparr>))"
  by (simp add: scheduleTask_execute_def agent_schedule_cron io_bind_def io_catch_def io_return_def split: option.split)

lemma executeTask_unfold:
  "executeTask env d task w =
     (Inr (),
      w\<lparr>trace := trace w @
           [PersistMessages (messages w @ [\<lparr>msg_id = generateId env (ids_drawn w), role = ''user'',
               content = ''Running scheduled task: '' @ d, invocations = [], createdAt = now w\<rparr>]),
            ModelInvocation (messages w @ [\<lparr>msg_id = generateId env (ids_drawn w), role = ''user'',
               content = ''Running scheduled task: '' @ d, invocations = [], createdAt = now w\<rparr>])],
        messages := messages w @ [\<lparr>msg_id = generateId env (ids_drawn w), role = ''user'',
               content = ''Running scheduled task: '' @ d, invocations = [], createdAt = now w\<rparr>],
        ids_drawn := Suc (ids_drawn w)\<rparr>)"
  by (simp add: executeTask_def saveMessages_def io_defs)

lemma cancel_unknown:
  "i \<notin> sched_id ` set (schedules w) \<Longrightarrow>
   cancelScheduledTask_execute i w =
     (Inr (RText (''Error canceling task '' @ i @ '': NotFound'')), w\<lparr>trace := trace w @ [CancelScheduleCall i]\<rparr>)"
  by (simp add: cancelScheduledTask_execute_def agent_cancelSchedule_def io_defs)

lemma cancel_known:
  "i \<in> sched_id ` set (schedules w) \<Longrightarrow>
   cancelScheduledTask_execute i w =
     (Inr (RText (''Task '' @ i @ '' has been successfully canceled.'')),
      w\<lparr>trace := trace w @ [CancelScheduleCall i], schedules := filter (\<lambda>s. sched_id s \<noteq> i) (schedules w)\<rparr>)"
  by (simp add: cancelScheduledTask_execute_def agent_cancelSchedule_def io_defs)

lemma schedules_invoke_callback: "schedules (snd (invoke_callback env s w)) = schedules w"
  by (simp add: invoke_callback_def executeTask_unfold io_return_def)

lemma ids_retime:
  "map sched_id (map (\<lambda>x. if sched_id x = k then x\<lparr>time := t'\<rparr> else x) ss) = map sched_id ss"
  by (induction ss) auto

lemma ids_reschedule_subset:
  "sched_id ` set (reschedule env t s ss) \<subseteq> sched_id ` set ss"
proof (cases "\<exists>c t'. cron s = Some c \<and> getNextCronTime env c t = Some t'")
  case True
  then obtain c t' where "cron s = Some c" "getNextCronTime env c t = Some t'" by blast
  then have "map sched_id (reschedule env t s ss) = map sched_id ss"
    by (simp add: reschedule_def ids_retime)
  then have "set (map sched_id (reschedule env t s ss)) = set (map sched_id ss)" by simp
  then show ?thesis by simp
next
  case False
  then have "reschedule env t s ss = filter (\<lambda>x. sched_id x \<noteq> sched_id s) ss"
    by (auto simp: reschedule_def split: option.splits)
  then show ?thesis by auto
qed

lemma ids_reschedule_one_off:
  "cron s = None \<Longrightarrow> sched_id s \<notin> sched_id ` set (reschedule env t s ss)"
  by (auto simp: reschedule_def)

lemma ids_fire_subset:
  "sched_id ` set (schedules (fire env s w)) \<subseteq> sched_id ` set (schedules w)"
  using ids_reschedule_subset [of env _ s "schedules w"]
  by (simp add: fire_def Let_def schedules_invoke_callback)

lemma ids_fire_one_off:
  "cron s = None \<Longrightarrow> sched_id s \<notin> sched_id ` set (schedules (fire env s w))"
  using ids_reschedule_one_off [of s env _ "schedules w"]
  by (simp add: fire_def Let_def schedules_invoke_callback)

lemma ids_fires_subset:
  "sched_id ` set (schedules (foldl (\<lambda>w' s. fire env s w') w ss)) \<subseteq> sched_id ` set (schedules w)"
proof (induction ss arbitrary: w)
  case Nil
  show ?case by simp
next
  case (Cons s ss)
  have "sched_id ` set (schedules (foldl (\<lambda>w' s. fire env s w') (fire env s w) ss))
          \<subseteq> sched_id ` set (schedules (fire env s w))"
    by (rule Cons.IH)
  also have "\<dots> \<subseteq> sched_id ` set (schedules w)" by (rule ids_fire_subset)
  finally show ?case by simp
qed

lemma ids_fires_one_off:
  "s \<in> set ss \<Longrightarrow> cron s = None \<Longrightarrow>
   sched_id s \<notin> sched_id ` set (schedules (foldl (\<lambda>w' s. fire env s w') w ss))"
proof (induction ss arbitrary: w)
  case Nil
  then show ?case by simp
next
  case (Cons x ss)
  show ?case
  proof (cases "s = x")
    case True
    with Cons.prems have "sched_id s \<notin> sched_id ` set (schedules (fire env x w))"
      by (simp add: ids_fire_one_off)
    with ids_fires_subset [of env "fire env x w" ss] show ?thesis by auto
  next
    case False
    with Cons.prems have "s \<in> set ss" by simp
    from Cons.IH [OF this Cons.prems(2)] show ?thesis by simp
  qed
qed

lemma fired_one_off_gone:
  assumes "\<forall>s \<in> set (schedules w). sched_id s = i \<longrightarrow> cron s = None \<and> due t s"
  shows "i \<notin> sched_id ` set (schedules (alarm env t w))"
proof
  assume gone: "i \<in> sched_id ` set (schedules (alarm env t w))"
  with ids_fires_subset [of env "w\<lparr>now := t\<rparr>" "filter (due t) (schedules w)"]
  have "i \<in> sched_id ` set (schedules w)" by (auto simp: alarm_def)
  then obtain s where s: "s \<in> set (schedules w)" "sched_id s = i" by auto
  with assms have one_off: "cron s = None" and "due t s" by auto
  with s have "s \<in> set (filter (due t) (schedules w))" by simp
  from ids_fires_one_off [OF this one_off, of env "w\<lparr>now := t\<rparr>"] s
  have "i \<notin> sched_id ` set (schedules (alarm env t w))" by (simp add: alarm_def)
  with gone show False by contradiction
qed

text \<open>
  C8. Cancelling an id that no active schedule has makes the cancel tool return the text
  \<^verbatim>\<open>Error canceling task <id>: NotFound\<close> as its result, with the schedules untouched. This
  covers the id of a one-off schedule that has fired: once the alarm has run at a time
  when every schedule with that id is one-off and due, cancelling the id reports NotFound.
  For every id and world the tool returns a text result and never throws.
\<close>

theorem cancel_unknown_reports:
  "(i \<notin> sched_id ` set (schedules w) \<longrightarrow>
      cancelScheduledTask_execute i w =
        (Inr (RText (''Error canceling task '' @ i @ '': NotFound'')),
         w\<lparr>trace := trace w @ [CancelScheduleCall i]\<rparr>))
   \<and> ((\<forall>s \<in> set (schedules w). sched_id s = i \<longrightarrow> cron s = None \<and> due t s) \<longrightarrow>
      fst (cancelScheduledTask_execute i (alarm env t w)) =
        Inr (RText (''Error canceling task '' @ i @ '': NotFound'')))
   \<and> (\<exists>r. fst (cancelScheduledTask_execute i w) = Inr (RText r))"
proof (intro conjI impI)
  assume "i \<notin> sched_id ` set (schedules w)"
  then show "cancelScheduledTask_execute i w =
        (Inr (RText (''Error canceling task '' @ i @ '': NotFound'')),
         w\<lparr>trace := trace w @ [CancelScheduleCall i]\<rparr>)"
    by (rule cancel_unknown)
next
  assume "\<forall>s \<in> set (schedules w). sched_id s = i \<longrightarrow> cron s = None \<and> due t s"
  then have "i \<notin> sched_id ` set (schedules (alarm env t w))" by (rule fired_one_off_gone)
  then show "fst (cancelScheduledTask_execute i (alarm env t w)) =
        Inr (RText (''Error canceling task '' @ i @ '': NotFound''))"
    by (simp add: cancel_unknown)
next
  show "\<exists>r. fst (cancelScheduledTask_execute i w) = Inr (RText r)"
    by (cases "i \<in> sched_id ` set (schedules w)") (simp_all add: cancel_unknown cancel_known)
qed


text \<open>
  C5. For each of the three accepted variants the scheduling tool makes exactly one call
  of the scheduler, with the date of a scheduled spec, the number of seconds of a delayed
  spec, the expression of a cron spec, always with the callback name \<^verbatim>\<open>executeTask\<close> and the
  description as payload. The scheduler registers the date verbatim and the delay as
  now + delay. A delayed schedule issued at time T with delay n, alone in the agent, does
  not fire at any time before T + n; at T + n it fires: the list of schedules is empty
  again and the callback has appended its one message.
\<close>

theorem schedule_call_by_variant:
  "trace (snd (scheduleTask_execute env (Scheduled date) d w)) =
     trace w @ [ScheduleCall (InDate date) ''executeTask'' d]
   \<and> trace (snd (scheduleTask_execute env (Delayed n) d w)) =
     trace w @ [ScheduleCall (InNumber n) ''executeTask'' d]
   \<and> trace (snd (scheduleTask_execute env (Cron c) d w)) =
     trace w @ [ScheduleCall (InString c) ''executeTask'' d]
   \<and> schedules (snd (scheduleTask_execute env (Scheduled date) d w)) =
     schedules w @ [\<lparr>sched_id = generateId env (ids_drawn w), callback = ''executeTask'',
                     payload = d, time = date, cron = None\<rparr>]
   \<and> schedules (snd (scheduleTask_execute env (Delayed n) d w)) =
     schedules w @ [\<lparr>sched_id = generateId env (ids_drawn w), callback = ''executeTask'',
                     payload = d, time = now w + n, cron = None\<rparr>]
   \<and> alarm env (now w + n - 1 - int k)
       (snd (scheduleTask_execute env (Delayed n) d (w\<lparr>schedules := []\<rparr>))) =
     (snd (scheduleTask_execute env (Delayed n) d (w\<lparr>schedules := []\<rparr>)))
       \<lparr>now := now w + n - 1 - int k\<rparr>
   \<and> schedules (alarm env (now w + n)
       (snd (scheduleTask_execute env (Delayed n) d (w\<lparr>schedules := []\<rparr>)))) = []
   \<and> messages (alarm env (now w + n)
       (snd (scheduleTask_execute env (Delayed n) d (w\<lparr>schedules := []\<rparr>)))) =
     messages w @ [\<lparr>msg_id = generateId env (Suc (ids_drawn w)), role = ''user'',
                    content = ''Running scheduled task: '' @ d, invocations = [],
                    createdAt = now w + n\<rparr>]"
proof (intro conjI)
  show "trace (snd (scheduleTask_execute env (Cron c) d w)) =
     trace w @ [ScheduleCall (InString c) ''executeTask'' d]"
    by (simp add: scheduleTask_cron split: option.split)
next
  show "alarm env (now w + n - 1 - int k)
       (snd (scheduleTask_execute env (Delayed n) d (w\<lparr>schedules := []\<rparr>))) =
     (snd (scheduleTask_execute env (Delayed n) d (w\<lparr>schedules := []\<rparr>)))
       \<lparr>now := now w + n - 1 - int k\<rparr>"
    by (simp add: scheduleTask_delayed alarm_def due_def)
next
  show "schedules (alarm env (now w + n)
       (snd (scheduleTask_execute env (Delayed n) d (w\<lparr>schedules := []\<rparr>)))) = []"
    by (simp add: scheduleTask_delayed alarm_def due_def fire_def invoke_callback_def
        executeTask_unfold reschedule_def)
next
  show "messages (alarm env (now w + n)
       (snd (scheduleTask_execute env (Delayed n) d (w\<lparr>schedules := []\<rparr>)))) =
     messages w @ [\<lparr>msg_id = generateId env (Suc (ids_drawn w)), role = ''user'',
                    content = ''Running scheduled task: '' @ d, invocations = [],
                    createdAt = now w + n\<rparr>]"
    by (simp add: scheduleTask_delayed alarm_def due_def fire_def invoke_callback_def
        executeTask_unfold reschedule_def)
qed (simp_all add: scheduleTask_scheduled scheduleTask_delayed)

text \<open>
  C7. The fire handler \<^verbatim>\<open>executeTask\<close>, which is what firing a schedule bound to it invokes,
  does one thing: it saves the message list extended by one user-role message whose
  content is \<^verbatim>\<open>Running scheduled task: \<close> followed by the description. The durable write of
  that list is the first effect, the model invocation comes after it; so whatever prefix
  of the effects a crash leaves, a prefix with a model invocation in it has the write.
\<close>

theorem fire_appends_before_model:
  "let m = \<lparr>msg_id = generateId env (ids_drawn w), role = ''user'',
            content = ''Running scheduled task: '' @ d, invocations = [], createdAt = now w\<rparr>;
       w' = snd (executeTask env d task w);
       new = drop (length (trace w)) (trace w')
   in fst (executeTask env d task w) = Inr ()
    \<and> invoke_callback env (task\<lparr>callback := ''executeTask'', payload := d\<rparr>) w =
        executeTask env d (task\<lparr>callback := ''executeTask'', payload := d\<rparr>) w
    \<and> messages w' = messages w @ [m]
    \<and> trace w' = trace w @ [PersistMessages (messages w @ [m]), ModelInvocation (messages w @ [m])]
    \<and> (\<forall>k ms. ModelInvocation ms \<in> set (take k new) \<longrightarrow>
                PersistMessages (messages w @ [m]) \<in> set (take k new))"
proof -
  define m where "m = \<lparr>msg_id = generateId env (ids_drawn w), role = ''user'',
            content = ''Running scheduled task: '' @ d, invocations = [], createdAt = now w\<rparr>"
  define w' where "w' = snd (executeTask env d task w)"
  define new where "new = drop (length (trace w)) (trace w')"
  have res: "fst (executeTask env d task w) = Inr ()"
    by (simp add: executeTask_unfold)
  have cb: "invoke_callback env (task\<lparr>callback := ''executeTask'', payload := d\<rparr>) w =
        executeTask env d (task\<lparr>callback := ''executeTask'', payload := d\<rparr>) w"
    by (simp add: invoke_callback_def)
  have msgs: "messages w' = messages w @ [m]"
    by (simp add: w'_def m_def executeTask_unfold)
  have tr: "trace w' = trace w @ [PersistMessages (messages w @ [m]), ModelInvocation (messages w @ [m])]"
    by (simp add: w'_def m_def executeTask_unfold)
  then have new: "new = [PersistMessages (messages w @ [m]), ModelInvocation (messages w @ [m])]"
    by (simp add: new_def)
  have prefix: "PersistMessages (messages w @ [m]) \<in> set (take k new)"
    if "ModelInvocation ms \<in> set (take k new)" for k ms
    using that unfolding new by (cases k) simp_all
  from res cb msgs tr prefix show ?thesis
    unfolding Let_def m_def [symmetric] w'_def [symmetric] new_def [symmetric] by blast
qed

theorem fire_appends_before_model_witness:
  "ModelInvocation
     [\<lparr>msg_id = ''id-0'', role = ''user'', content = ''Running scheduled task: water the plants'',
       invocations = [], createdAt = 1000\<rparr>]
     \<in> set (take 2 (drop (length (trace world0))
          (trace (snd (executeTask sample_env ''water the plants''
             \<lparr>sched_id = ''s1'', callback = ''executeTask'', payload = ''water the plants'',
               time = 1000, cron = None\<rparr> world0)))))
   \<and> PersistMessages
     [\<lparr>msg_id = ''id-0'', role = ''user'', content = ''Running scheduled task: water the plants'',
       invocations = [], createdAt = 1000\<rparr>]
     \<in> set (take 2 (drop (length (trace world0))
          (trace (snd (executeTask sample_env ''water the plants''
             \<lparr>sched_id = ''s1'', callback = ''executeTask'', payload = ''water the plants'',
               time = 1000, cron = None\<rparr> world0)))))"
  using fire_appends_before_model [of sample_env world0 "''water the plants''"
      "\<lparr>sched_id = ''s1'', callback = ''executeTask'', payload = ''water the plants'',
        time = 1000, cron = None\<rparr>"]
  by (simp add: Let_def sample_env_def world0_def nat_to_string.simps digit_of_def)

theorem cancel_unknown_reports_witness:
  "''id-9'' \<notin> sched_id ` set (schedules world0)
   \<and> cancelScheduledTask_execute ''id-9'' world0 =
       (Inr (RText ''Error canceling task id-9: NotFound''),
        world0\<lparr>trace := [CancelScheduleCall ''id-9'']\<rparr>)
   \<and> map sched_id (schedules (snd (scheduleTask_execute sample_env (Delayed 5) ''water'' world0))) =
       [''id-0'']
   \<and> list_all (\<lambda>s. cron s = None \<and> due 1005 s)
        (schedules (snd (scheduleTask_execute sample_env (Delayed 5) ''water'' world0)))
   \<and> fst (cancelScheduledTask_execute ''id-0''
        (alarm sample_env 1005 (snd (scheduleTask_execute sample_env (Delayed 5) ''water'' world0)))) =
       Inr (RText ''Error canceling task id-0: NotFound'')"
  using cancel_unknown_reports [of "''id-9''" world0 1005 sample_env]
    cancel_unknown_reports [of "''id-0''"
      "snd (scheduleTask_execute sample_env (Delayed 5) ''water'' world0)" 1005 sample_env]
  by (simp add: scheduleTask_delayed sample_env_def world0_def due_def
      nat_to_string.simps digit_of_def)

section \<open>Properties of the ingestion trigger and the retrieval tool\<close>


text \<open>
  C9 as stated says a body \<^verbatim>\<open>{text: string}\<close> gets a run. The body \<^verbatim>\<open>{text: ""}\<close> has a text
  that is a string, and the guard \<^verbatim>\<open>if (!text)\<close> turns it away: the answer is 400 and the
  trace stays empty.
\<close>

theorem empty_text_counterexample:
  "post_text sample_env (Some '''') world0 = (Inr \<lparr>body = ''Missing text'', status = 400\<rparr>, world0)
   \<and> trace (snd (post_text sample_env (Some '''') world0)) = []"
  by (simp add: post_text_def io_return_def world0_def)

text \<open>
  C9, as the code has it. For a body whose \<open>text\<close> is a non-empty string the endpoint
  asks the workflow binding to create a run for that text, once, and answers 201
  \<^verbatim>\<open>Create note\<close> when the binding returns the run (the binding's error otherwise). When
  \<open>text\<close> is missing or is the empty string it answers 400 \<^verbatim>\<open>Missing text\<close> and creates no
  run.
\<close>

theorem post_text_creates_run:
  "(t \<noteq> [] \<longrightarrow>
      post_text env (Some t) w =
        (case RAG_WORKFLOW_create env (trace w) t of
           Inl e \<Rightarrow> Inl e
         | Inr run_id \<Rightarrow> Inr \<lparr>body = ''Create note'', status = 201\<rparr>,
         w\<lparr>trace := trace w @ [WorkflowCreate t]\<rparr>))
   \<and> post_text env None w = (Inr \<lparr>body = ''Missing text'', status = 400\<rparr>, w)
   \<and> post_text env (Some []) w = (Inr \<lparr>body = ''Missing text'', status = 400\<rparr>, w)"
  by (simp add: post_text_def io_defs split: sum.split)

theorem post_text_creates_run_witness:
  "''hello'' \<noteq> []
   \<and> post_text sample_env (Some ''hello'') world0 =
       (Inr \<lparr>body = ''Create note'', status = 201\<rparr>, world0\<lparr>trace := [WorkflowCreate ''hello'']\<rparr>)"
  using post_text_creates_run [of "''hello''" sample_env world0]
  by (simp add: sample_env_def world0_def)

lemma rag_no_match:
  assumes "embeddings_create env (trace w) query = Inr (v # vs)"
    and "VECTORIZE_query env (trace w @ [EmbeddingsCreate query]) v 5 = Inr []"
  shows "getRAGTool_execute env query w =
     (case responses_create env (trace w @ [EmbeddingsCreate query, VectorizeQuery v 5])
             [(''developer'', systemPrompt), (''user'', query)] of
        Inl e \<Rightarrow> Inl e
      | Inr output_text \<Rightarrow> Inr (RText output_text),
      w\<lparr>trace := trace w @ [EmbeddingsCreate query, VectorizeQuery v 5,
                 ResponsesCreate [(''developer'', systemPrompt), (''user'', query)]]\<rparr>)"
  using assms by (simp add: getRAGTool_execute_def io_defs split: sum.split)

lemma rag_empty_id:
  assumes "embeddings_create env (trace w) query = Inr (v # vs)"
    and "VECTORIZE_query env (trace w @ [EmbeddingsCreate query]) v 5 = Inr ([] # ms)"
  shows "trace (snd (getRAGTool_execute env query w)) =
      trace w @ [EmbeddingsCreate query, VectorizeQuery v 5,
                 ResponsesCreate [(''developer'', systemPrompt), (''user'', query)]]"
  using assms by (simp add: getRAGTool_execute_def io_defs split: sum.split)

lemma rag_match:
  assumes "embeddings_create env (trace w) query = Inr (v # vs)"
    and "VECTORIZE_query env (trace w @ [EmbeddingsCreate query]) v 5 = Inr (m # ms)"
    and "m \<noteq> []"
  shows "\<exists>rest. trace (snd (getRAGTool_execute env query w)) =
      trace w @ [EmbeddingsCreate query, VectorizeQuery v 5, DbRun select_query [m]] @ rest
      \<and> (rest = [] \<or> (\<exists>input. rest = [ResponsesCreate input]))"
  using assms by (auto simp add: getRAGTool_execute_def io_defs split: sum.split list.split)

lemma db_runs_append: "db_runs (xs @ ys) = db_runs xs @ db_runs ys"
  by (induction xs rule: db_runs.induct) simp_all

lemma vector_queries_append: "vector_queries (xs @ ys) = vector_queries xs @ vector_queries ys"
  by (induction xs rule: vector_queries.induct) simp_all

text \<open>
  C10. When the embedding service returns an embedding \<open>v\<close> for the query and the vector
  index answers with the matches \<open>ms\<close>, the tool has made exactly one vector query, for
  \<open>v\<close> with \<open>topK\<close> 5; its database look-ups are none when \<open>ms\<close> is empty (or the first
  id is the empty string) and otherwise the one select bound to the first match's id;
  and when \<open>ms\<close> is empty the model is asked with the system prompt and the query only,
  no context message, and its answer is the tool's result.
\<close>

theorem rag_top5_first_match_only:
  assumes emb: "embeddings_create env (trace w) query = Inr (v # vs)"
    and vq: "VECTORIZE_query env (trace w @ [EmbeddingsCreate query]) v 5 = Inr ms"
  shows "let new = drop (length (trace w)) (trace (snd (getRAGTool_execute env query w)))
         in vector_queries new = [(v, 5)]
          \<and> db_runs new =
              (case ms of
                 [] \<Rightarrow> []
               | m # _ \<Rightarrow> if m = [] then [] else [(select_query, [m])])
          \<and> (ms = [] \<longrightarrow>
               getRAGTool_execute env query w =
                 (case responses_create env (trace w @ [EmbeddingsCreate query, VectorizeQuery v 5])
                         [(''developer'', systemPrompt), (''user'', query)] of
                    Inl e \<Rightarrow> Inl e
                  | Inr output_text \<Rightarrow> Inr (RText output_text),
                  w\<lparr>trace := trace w @ [EmbeddingsCreate query, VectorizeQuery v 5,
                       ResponsesCreate [(''developer'', systemPrompt), (''user'', query)]]\<rparr>))"
proof (cases ms)
  case Nil
  with assms show ?thesis by (simp add: rag_no_match Let_def)
next
  case (Cons m rest)
  show ?thesis
  proof (cases "m = []")
    case True
    with Cons assms show ?thesis by (simp add: rag_empty_id Let_def)
  next
    case False
    from rag_match [OF emb vq [unfolded Cons] False]
    obtain r where "trace (snd (getRAGTool_execute env query w)) =
      trace w @ [EmbeddingsCreate query, VectorizeQuery v 5, DbRun select_query [m]] @ r"
      and "r = [] \<or> (\<exists>input. r = [ResponsesCreate input])" by blast
    with Cons False show ?thesis by (auto simp: Let_def)
  qed
qed

theorem rag_top5_first_match_only_witness:
  "vector_queries (trace (snd (getRAGTool_execute sample_env ''what is stored?'' world0))) =
     [([1 / 2, 1 / 4], 5)]
   \<and> db_runs (trace (snd (getRAGTool_execute sample_env ''what is stored?'' world0))) =
     [(select_query, [''7''])]
   \<and> getRAGTool_execute (sample_env\<lparr>VECTORIZE_query := \<lambda>h v k. Inr []\<rparr>) ''what is stored?'' world0 =
     (Inr (RText ''an answer''),
      world0\<lparr>trace := [EmbeddingsCreate ''what is stored?'', VectorizeQuery [1 / 2, 1 / 4] 5,
         ResponsesCreate [(''developer'', systemPrompt), (''user'', ''what is stored?'')]]\<rparr>)"
  using rag_top5_first_match_only [of sample_env world0 "''what is stored?''" "[1 / 2, 1 / 4]" "[]"
      "[''7'', ''3'']"]
    rag_top5_first_match_only [of "sample_env\<lparr>VECTORIZE_query := \<lambda>h v k. Inr []\<rparr>" world0
      "''what is stored?''" "[1 / 2, 1 / 4]" "[]" "[]"]
  by (simp add: sample_env_def world0_def Let_def)

section \<open>Properties of the registry and the resolver\<close>


lemmas tool_defs = getWeatherInformation_def getLocalTime_def scheduleTask_def
  getScheduledTasks_def cancelScheduledTask_def getRAGTool_def

text \<open>
  C2. For every entry of the exported \<open>tools\<close> table: the tool is classified as requiring
  confirmation exactly when its definition has no \<open>execute\<close> function, and as
  auto-executing otherwise; and it has no \<open>execute\<close> function exactly when the separate
  \<open>executions\<close> table has an implementation under its name.
\<close>

theorem registry_classification:
  "\<forall>(name, t) \<in> set (tools env).
      (classify t = RequiresConfirmation \<longleftrightarrow> execute t = None)
    \<and> (classify t = Auto \<longleftrightarrow> execute t \<noteq> None)
    \<and> (execute t = None \<longleftrightarrow> name \<in> fst ` set executions)"
  by (simp add: tools_def executions_def classify_def tool_defs)

theorem registry_classification_witness:
  "(''getWeatherInformation'', getWeatherInformation) \<in> set (tools sample_env)
   \<and> classify getWeatherInformation = RequiresConfirmation
   \<and> execute getWeatherInformation = None
   \<and> ''getWeatherInformation'' \<in> fst ` set executions
   \<and> (''getLocalTime'', getLocalTime) \<in> set (tools sample_env)
   \<and> classify getLocalTime = Auto
   \<and> ''getLocalTime'' \<notin> fst ` set executions"
proof -
  have a: "(''getWeatherInformation'', getWeatherInformation) \<in> set (tools sample_env)"
    and b: "(''getLocalTime'', getLocalTime) \<in> set (tools sample_env)"
    by (simp_all add: tools_def)
  have c: "execute getWeatherInformation = None" and d: "execute getLocalTime \<noteq> None"
    by (simp_all add: tool_defs)
  from registry_classification [of sample_env] a b c d show ?thesis by fastforce
qed


lemma resolve_nonpending:
  "state iv \<noteq> Pending \<Longrightarrow> resolve_invocation ts ex D iv w = ((iv, []), w)"
  by (simp add: resolve_invocation_def)

lemma capture_fields:
  "inv_id (capture iv r) = inv_id iv" "state (capture iv r) \<noteq> Pending"
  by (simp_all add: capture_def split: sum.split)

lemma resolve_invocation_id:
  "inv_id (fst (fst (resolve_invocation ts ex D iv w))) = inv_id iv"
  by (simp add: resolve_invocation_def execute_now_def capture_fields
      split: option.split prod.split)

lemma resolve_invocation_calls:
  "c \<in> set (snd (fst (resolve_invocation ts ex D iv w))) \<Longrightarrow> fst c = inv_id iv"
  by (auto simp: resolve_invocation_def execute_now_def
      split: option.splits prod.splits if_splits)

lemma calls_of_append: "calls_of i (xs @ ys) = calls_of i xs @ calls_of i ys"
  by (simp add: calls_of_def)

lemma calls_of_all: "(\<And>c. c \<in> set cs \<Longrightarrow> fst c = i) \<Longrightarrow> calls_of i cs = cs"
  by (simp add: calls_of_def)

lemma calls_of_none: "(\<And>c. c \<in> set cs \<Longrightarrow> fst c \<noteq> i) \<Longrightarrow> calls_of i cs = []"
  by (induction cs) (auto simp: calls_of_def)

lemma resolve_invocations_ids:
  "map inv_id (fst (fst (resolve_invocations ts ex D ivs w))) = map inv_id ivs"
proof (induction ivs arbitrary: w)
  case Nil
  show ?case by simp
next
  case (Cons x xs)
  obtain x' c1 w1 where r: "resolve_invocation ts ex D x w = ((x', c1), w1)"
    by (metis surj_pair)
  obtain xs' c2 w2 where rs: "resolve_invocations ts ex D xs w1 = ((xs', c2), w2)"
    by (metis surj_pair)
  from resolve_invocation_id [of ts ex D x w] r have "inv_id x' = inv_id x" by simp
  moreover from Cons.IH [of w1] rs have "map inv_id xs' = map inv_id xs" by simp
  ultimately show ?case using r rs by simp
qed

lemma resolve_invocations_calls:
  "c \<in> set (snd (fst (resolve_invocations ts ex D ivs w))) \<Longrightarrow> fst c \<in> inv_id ` set ivs"
proof (induction ivs arbitrary: w)
  case Nil
  then show ?case by simp
next
  case (Cons x xs)
  obtain x' c1 w1 where r: "resolve_invocation ts ex D x w = ((x', c1), w1)"
    by (metis surj_pair)
  obtain xs' c2 w2 where rs: "resolve_invocations ts ex D xs w1 = ((xs', c2), w2)"
    by (metis surj_pair)
  from Cons.prems r rs have "c \<in> set c1 \<or> c \<in> set c2" by simp
  then show ?case
  proof
    assume "c \<in> set c1"
    with resolve_invocation_calls [of c ts ex D x w] r show ?thesis by simp
  next
    assume "c \<in> set c2"
    with Cons.IH [of w1] rs show ?thesis by simp
  qed
qed

lemma resolve_invocations_at:
  assumes "iv \<in> set ivs" and "distinct (map inv_id ivs)"
  shows "\<exists>w0. fst (fst (resolve_invocation ts ex D iv w0))
                 \<in> set (fst (fst (resolve_invocations ts ex D ivs w)))
             \<and> calls_of (inv_id iv) (snd (fst (resolve_invocations ts ex D ivs w))) =
                 snd (fst (resolve_invocation ts ex D iv w0))"
  using assms
proof (induction ivs arbitrary: w)
  case Nil
  then show ?case by simp
next
  case (Cons x xs)
  obtain x' c1 w1 where r: "resolve_invocation ts ex D x w = ((x', c1), w1)"
    by (metis surj_pair)
  obtain xs' c2 w2 where rs: "resolve_invocations ts ex D xs w1 = ((xs', c2), w2)"
    by (metis surj_pair)
  from Cons.prems have fresh: "inv_id x \<notin> inv_id ` set xs" and dist: "distinct (map inv_id xs)"
    by simp_all
  show ?case
  proof (cases "iv = x")
    case True
    have own: "calls_of (inv_id x) c1 = c1"
      using resolve_invocation_calls [of _ ts ex D x w] r by (intro calls_of_all) simp
    have others: "calls_of (inv_id x) c2 = []"
    proof (rule calls_of_none)
      fix c assume "c \<in> set c2"
      with resolve_invocations_calls [of c ts ex D xs w1] rs have "fst c \<in> inv_id ` set xs" by simp
      with fresh show "fst c \<noteq> inv_id x" by auto
    qed
    from True r rs own others
    have "fst (fst (resolve_invocation ts ex D iv w))
            \<in> set (fst (fst (resolve_invocations ts ex D (x # xs) w)))
          \<and> calls_of (inv_id iv) (snd (fst (resolve_invocations ts ex D (x # xs) w))) =
            snd (fst (resolve_invocation ts ex D iv w))"
      by (simp add: calls_of_append)
    then show ?thesis by blast
  next
    case False
    with Cons.prems have mem: "iv \<in> set xs" by simp
    then have "inv_id iv \<in> inv_id ` set xs" by (rule imageI)
    with fresh have neq: "inv_id iv \<noteq> inv_id x" by metis
    have first: "calls_of (inv_id iv) c1 = []"
    proof (rule calls_of_none)
      fix c assume "c \<in> set c1"
      with resolve_invocation_calls [of c ts ex D x w] r have "fst c = inv_id x" by simp
      with neq show "fst c \<noteq> inv_id iv" by simp
    qed
    from Cons.IH [OF mem dist, of w1] rs
    obtain w0 where "fst (fst (resolve_invocation ts ex D iv w0)) \<in> set xs'"
      and "calls_of (inv_id iv) c2 = snd (fst (resolve_invocation ts ex D iv w0))"
      by auto
    with r rs first
    have "fst (fst (resolve_invocation ts ex D iv w0))
            \<in> set (fst (fst (resolve_invocations ts ex D (x # xs) w)))
          \<and> calls_of (inv_id iv) (snd (fst (resolve_invocations ts ex D (x # xs) w))) =
            snd (fst (resolve_invocation ts ex D iv w0))"
      by (simp add: calls_of_append)
    then show ?thesis by blast
  qed
qed


lemma all_invocations_Cons: "all_invocations (m # ms) = invocations m @ all_invocations ms"
  by (simp add: all_invocations_def)

lemma process_ids:
  "map inv_id (all_invocations (fst (fst (processToolCalls ts ex D ms w)))) =
   map inv_id (all_invocations ms)"
proof (induction ms arbitrary: w)
  case Nil
  show ?case by simp
next
  case (Cons m ms)
  obtain ivs' c1 w1 where r: "resolve_invocations ts ex D (invocations m) w = ((ivs', c1), w1)"
    by (metis surj_pair)
  obtain ms' c2 w2 where rs: "processToolCalls ts ex D ms w1 = ((ms', c2), w2)"
    by (metis surj_pair)
  from resolve_invocations_ids [of ts ex D "invocations m" w] r
  have "map inv_id ivs' = map inv_id (invocations m)" by simp
  moreover from Cons.IH [of w1] rs
  have "map inv_id (all_invocations ms') = map inv_id (all_invocations ms)" by simp
  ultimately show ?case using r rs by (simp add: all_invocations_Cons)
qed

lemma process_calls:
  "c \<in> set (snd (fst (processToolCalls ts ex D ms w))) \<Longrightarrow>
   fst c \<in> inv_id ` set (all_invocations ms)"
proof (induction ms arbitrary: w)
  case Nil
  then show ?case by simp
next
  case (Cons m ms)
  obtain ivs' c1 w1 where r: "resolve_invocations ts ex D (invocations m) w = ((ivs', c1), w1)"
    by (metis surj_pair)
  obtain ms' c2 w2 where rs: "processToolCalls ts ex D ms w1 = ((ms', c2), w2)"
    by (metis surj_pair)
  from Cons.prems r rs have "c \<in> set c1 \<or> c \<in> set c2" by simp
  then show ?case
  proof
    assume "c \<in> set c1"
    with resolve_invocations_calls [of c ts ex D "invocations m" w] r
    show ?thesis by (auto simp: all_invocations_Cons)
  next
    assume "c \<in> set c2"
    with Cons.IH [of w1] rs show ?thesis by (auto simp: all_invocations_Cons)
  qed
qed

lemma process_at:
  assumes "iv \<in> set (all_invocations ms)" and "distinct (map inv_id (all_invocations ms))"
  shows "\<exists>w0. fst (fst (resolve_invocation ts ex D iv w0))
                 \<in> set (all_invocations (fst (fst (processToolCalls ts ex D ms w))))
             \<and> calls_of (inv_id iv) (snd (fst (processToolCalls ts ex D ms w))) =
                 snd (fst (resolve_invocation ts ex D iv w0))"
  using assms
proof (induction ms arbitrary: w)
  case Nil
  then show ?case by (simp add: all_invocations_def)
next
  case (Cons m ms)
  obtain ivs' c1 w1 where r: "resolve_invocations ts ex D (invocations m) w = ((ivs', c1), w1)"
    by (metis surj_pair)
  obtain ms' c2 w2 where rs: "processToolCalls ts ex D ms w1 = ((ms', c2), w2)"
    by (metis surj_pair)
  from Cons.prems(2)
  have d1: "distinct (map inv_id (invocations m))"
    and d2: "distinct (map inv_id (all_invocations ms))"
    and disj: "inv_id ` set (invocations m) \<inter> inv_id ` set (all_invocations ms) = {}"
    by (simp_all add: all_invocations_Cons)
  from Cons.prems(1) have "iv \<in> set (invocations m) \<or> iv \<in> set (all_invocations ms)"
    by (simp add: all_invocations_Cons)
  then show ?case
  proof
    assume here: "iv \<in> set (invocations m)"
    then have "inv_id iv \<in> inv_id ` set (invocations m)" by (rule imageI)
    with disj have notin: "inv_id iv \<notin> inv_id ` set (all_invocations ms)" by blast
    have later: "calls_of (inv_id iv) c2 = []"
    proof (rule calls_of_none)
      fix c assume "c \<in> set c2"
      with process_calls [of c ts ex D ms w1] rs
      have "fst c \<in> inv_id ` set (all_invocations ms)" by simp
      with notin show "fst c \<noteq> inv_id iv" by metis
    qed
    from resolve_invocations_at [OF here d1, of ts ex D w] r
    obtain w0 where "fst (fst (resolve_invocation ts ex D iv w0)) \<in> set ivs'"
      and "calls_of (inv_id iv) c1 = snd (fst (resolve_invocation ts ex D iv w0))"
      by auto
    with r rs later
    have "fst (fst (resolve_invocation ts ex D iv w0))
            \<in> set (all_invocations (fst (fst (processToolCalls ts ex D (m # ms) w))))
          \<and> calls_of (inv_id iv) (snd (fst (processToolCalls ts ex D (m # ms) w))) =
            snd (fst (resolve_invocation ts ex D iv w0))"
      by (simp add: calls_of_append all_invocations_Cons)
    then show ?thesis by blast
  next
    assume there: "iv \<in> set (all_invocations ms)"
    then have "inv_id iv \<in> inv_id ` set (all_invocations ms)" by (rule imageI)
    with disj have notin: "inv_id iv \<notin> inv_id ` set (invocations m)" by blast
    have first: "calls_of (inv_id iv) c1 = []"
    proof (rule calls_of_none)
      fix c assume "c \<in> set c1"
      with resolve_invocations_calls [of c ts ex D "invocations m" w] r
      have "fst c \<in> inv_id ` set (invocations m)" by simp
      with notin show "fst c \<noteq> inv_id iv" by metis
    qed
    from Cons.IH [OF there d2, of w1] rs
    obtain w0 where "fst (fst (resolve_invocation ts ex D iv w0)) \<in> set (all_invocations ms')"
      and "calls_of (inv_id iv) c2 = snd (fst (resolve_invocation ts ex D iv w0))"
      by auto
    with r rs first
    have "fst (fst (resolve_invocation ts ex D iv w0))
            \<in> set (all_invocations (fst (fst (processToolCalls ts ex D (m # ms) w))))
          \<and> calls_of (inv_id iv) (snd (fst (processToolCalls ts ex D (m # ms) w))) =
            snd (fst (resolve_invocation ts ex D iv w0))"
      by (simp add: calls_of_append all_invocations_Cons)
    then show ?thesis by blast
  qed
qed

lemma passes_untouched:
  assumes "\<And>w. resolve_invocation ts ex D iv w = ((iv, []), w)"
    and "iv \<in> set (all_invocations ms)"
    and "distinct (map inv_id (all_invocations ms))"
  shows "iv \<in> set (all_invocations (fst (fst (passes n ts ex D ms w))))
       \<and> calls_of (inv_id iv) (snd (fst (passes n ts ex D ms w))) = []"
  using assms(2,3)
proof (induction n arbitrary: ms w)
  case 0
  then show ?case by (simp add: calls_of_def)
next
  case (Suc n)
  obtain ms1 c1 w1 where p: "processToolCalls ts ex D ms w = ((ms1, c1), w1)"
    by (metis surj_pair)
  obtain ms2 c2 w2 where ps: "passes n ts ex D ms1 w1 = ((ms2, c2), w2)"
    by (metis surj_pair)
  from process_at [OF Suc.prems, of ts ex D w] p assms(1)
  have mem: "iv \<in> set (all_invocations ms1)" and none: "calls_of (inv_id iv) c1 = []"
    by auto
  from process_ids [of ts ex D ms w] p Suc.prems(2)
  have dist: "distinct (map inv_id (all_invocations ms1))" by simp
  from Suc.IH [OF mem dist, of w1] ps
  have "iv \<in> set (all_invocations ms2)" and "calls_of (inv_id iv) c2 = []" by auto
  with p ps none show ?case by (simp add: calls_of_append)
qed

lemma passes_Suc_at:
  assumes "iv \<in> set (all_invocations ms)"
    and "distinct (map inv_id (all_invocations ms))"
    and "\<And>w0 w. resolve_invocation ts ex D (fst (fst (resolve_invocation ts ex D iv w0))) w =
           ((fst (fst (resolve_invocation ts ex D iv w0)), []), w)"
  shows "\<exists>w0. fst (fst (resolve_invocation ts ex D iv w0))
                 \<in> set (all_invocations (fst (fst (passes (Suc n) ts ex D ms w))))
             \<and> calls_of (inv_id iv) (snd (fst (passes (Suc n) ts ex D ms w))) =
                 snd (fst (resolve_invocation ts ex D iv w0))"
proof -
  obtain ms1 c1 w1 where p: "processToolCalls ts ex D ms w = ((ms1, c1), w1)"
    by (metis surj_pair)
  obtain ms2 c2 w2 where ps: "passes n ts ex D ms1 w1 = ((ms2, c2), w2)"
    by (metis surj_pair)
  from process_at [OF assms(1,2), of ts ex D w] p
  obtain w0 where mem: "fst (fst (resolve_invocation ts ex D iv w0)) \<in> set (all_invocations ms1)"
    and calls: "calls_of (inv_id iv) c1 = snd (fst (resolve_invocation ts ex D iv w0))"
    by auto
  let ?iv' = "fst (fst (resolve_invocation ts ex D iv w0))"
  from process_ids [of ts ex D ms w] p assms(2)
  have dist: "distinct (map inv_id (all_invocations ms1))" by simp
  have "?iv' \<in> set (all_invocations (fst (fst (passes n ts ex D ms1 w1))))
       \<and> calls_of (inv_id ?iv') (snd (fst (passes n ts ex D ms1 w1))) = []"
    by (rule passes_untouched [OF assms(3) mem dist])
  with ps have "?iv' \<in> set (all_invocations ms2)" and "calls_of (inv_id iv) c2 = []"
    by (simp_all add: resolve_invocation_id)
  with p ps calls
  have "?iv' \<in> set (all_invocations (fst (fst (passes (Suc n) ts ex D ms w))))
      \<and> calls_of (inv_id iv) (snd (fst (passes (Suc n) ts ex D ms w))) =
         snd (fst (resolve_invocation ts ex D iv w0))"
    by (simp add: calls_of_append)
  then show ?thesis by blast
qed


text \<open>
  C1. Take a history whose invocation ids are distinct, and in it a pending invocation of
  a confirmation-required tool. If the decision for its id is approved and the executions
  table has a function for the tool, then after any number of passes (at least one) the
  function has been called exactly once for that id, with the invocation's own arguments,
  and the history holds the invocation with the function's result as executed (or its
  error as errored). If the decision is denied, the history holds the invocation as denied
  with the declined result and no call was made for it. If there is no decision, after any
  number of passes the invocation is in the history as it was and no call was made for it.
\<close>

theorem confirmation_resolution:
  assumes mem: "iv \<in> set (all_invocations ms)"
    and dist: "distinct (map inv_id (all_invocations ms))"
    and pending: "state iv = Pending"
    and tool: "ts (tool_name iv) = Some t"
    and confirm: "classify t = RequiresConfirmation"
  shows "(D (inv_id iv) = Some True \<and> ex (tool_name iv) = Some f \<longrightarrow>
           (\<exists>w0. (case fst (f (arguments iv) w0) of
                     Inr v \<Rightarrow> iv\<lparr>state := Executed, result := Some (Output v)\<rparr>
                   | Inl e \<Rightarrow> iv\<lparr>state := Errored, result := Some (Failure e)\<rparr>)
                    \<in> set (all_invocations (fst (fst (passes (Suc n) ts ex D ms w))))
                \<and> calls_of (inv_id iv) (snd (fst (passes (Suc n) ts ex D ms w))) =
                    [(inv_id iv, tool_name iv, arguments iv)]))
       \<and> (D (inv_id iv) = Some False \<longrightarrow>
            iv\<lparr>state := Denied, result := Some Declined\<rparr>
              \<in> set (all_invocations (fst (fst (passes (Suc n) ts ex D ms w))))
            \<and> calls_of (inv_id iv) (snd (fst (passes (Suc n) ts ex D ms w))) = [])
       \<and> (D (inv_id iv) = None \<longrightarrow>
            iv \<in> set (all_invocations (fst (fst (passes n ts ex D ms w))))
            \<and> calls_of (inv_id iv) (snd (fst (passes n ts ex D ms w))) = [])"
proof (intro conjI impI)
  from confirm have noexec: "execute t = None"
    by (simp add: classify_def split: option.splits)
  {
    assume approved: "D (inv_id iv) = Some True \<and> ex (tool_name iv) = Some f"
    have step: "resolve_invocation ts ex D iv w0 = execute_now f iv w0" for w0
      using pending tool noexec approved by (simp add: resolve_invocation_def)
    have settled: "resolve_invocation ts ex D (fst (fst (resolve_invocation ts ex D iv w0))) w1 =
           ((fst (fst (resolve_invocation ts ex D iv w0)), []), w1)" for w0 w1
      by (rule resolve_nonpending)
         (simp add: step execute_now_def capture_fields split: prod.split)
    from passes_Suc_at [OF mem dist settled, of n w]
    obtain w0 where
      "fst (fst (resolve_invocation ts ex D iv w0))
         \<in> set (all_invocations (fst (fst (passes (Suc n) ts ex D ms w))))"
      and "calls_of (inv_id iv) (snd (fst (passes (Suc n) ts ex D ms w))) =
         snd (fst (resolve_invocation ts ex D iv w0))"
      by blast
    then have "(case fst (f (arguments iv) w0) of
                     Inr v \<Rightarrow> iv\<lparr>state := Executed, result := Some (Output v)\<rparr>
                   | Inl e \<Rightarrow> iv\<lparr>state := Errored, result := Some (Failure e)\<rparr>)
                    \<in> set (all_invocations (fst (fst (passes (Suc n) ts ex D ms w))))
                \<and> calls_of (inv_id iv) (snd (fst (passes (Suc n) ts ex D ms w))) =
                    [(inv_id iv, tool_name iv, arguments iv)]"
      by (simp add: step execute_now_def capture_def split: prod.splits sum.splits)
    then show "\<exists>w0. (case fst (f (arguments iv) w0) of
                     Inr v \<Rightarrow> iv\<lparr>state := Executed, result := Some (Output v)\<rparr>
                   | Inl e \<Rightarrow> iv\<lparr>state := Errored, result := Some (Failure e)\<rparr>)
                    \<in> set (all_invocations (fst (fst (passes (Suc n) ts ex D ms w))))
                \<and> calls_of (inv_id iv) (snd (fst (passes (Suc n) ts ex D ms w))) =
                    [(inv_id iv, tool_name iv, arguments iv)]"
      by blast
  }
  {
    assume denied: "D (inv_id iv) = Some False"
    have step: "resolve_invocation ts ex D iv w0 =
                  ((iv\<lparr>state := Denied, result := Some Declined\<rparr>, []), w0)" for w0
      using pending tool noexec denied by (simp add: resolve_invocation_def)
    have settled: "resolve_invocation ts ex D (fst (fst (resolve_invocation ts ex D iv w0))) w1 =
           ((fst (fst (resolve_invocation ts ex D iv w0)), []), w1)" for w0 w1
      by (rule resolve_nonpending) (simp add: step)
    from passes_Suc_at [OF mem dist settled, of n w]
    show "iv\<lparr>state := Denied, result := Some Declined\<rparr>
              \<in> set (all_invocations (fst (fst (passes (Suc n) ts ex D ms w))))"
      and "calls_of (inv_id iv) (snd (fst (passes (Suc n) ts ex D ms w))) = []"
      by (simp_all add: step)
  }
  {
    assume none: "D (inv_id iv) = None"
    have step: "resolve_invocation ts ex D iv w0 = ((iv, []), w0)" for w0
      using pending tool noexec none by (simp add: resolve_invocation_def)
    from passes_untouched [OF step mem dist, of n w]
    show "iv \<in> set (all_invocations (fst (fst (passes n ts ex D ms w))))"
      and "calls_of (inv_id iv) (snd (fst (passes n ts ex D ms w))) = []"
      by simp_all
  }
qed

theorem confirmation_resolution_witness:
  "sample_invocation \<in> set (all_invocations sample_history)
   \<and> distinct (map inv_id (all_invocations sample_history))
   \<and> state sample_invocation = Pending
   \<and> map_of (tools sample_env) (tool_name sample_invocation) = Some getWeatherInformation
   \<and> classify getWeatherInformation = RequiresConfirmation
   \<and> calls_of ''call-1''
        (snd (fst (passes (Suc (Suc 0)) (map_of (tools sample_env)) (map_of executions)
           [''call-1'' \<mapsto> True] sample_history world0))) =
       [(''call-1'', ''getWeatherInformation'', CityArgs ''Paris'')]
   \<and> calls_of ''call-1''
        (snd (fst (passes (Suc (Suc 0)) (map_of (tools sample_env)) (map_of executions)
           [''call-1'' \<mapsto> False] sample_history world0))) = []
   \<and> sample_invocation\<lparr>state := Denied, result := Some Declined\<rparr>
        \<in> set (all_invocations (fst (fst (passes (Suc (Suc 0)) (map_of (tools sample_env))
             (map_of executions) [''call-1'' \<mapsto> False] sample_history world0))))
   \<and> sample_invocation
        \<in> set (all_invocations (fst (fst (passes (Suc (Suc 0)) (map_of (tools sample_env))
             (map_of executions) Map.empty sample_history world0))))
   \<and> calls_of ''call-1''
        (snd (fst (passes (Suc (Suc 0)) (map_of (tools sample_env)) (map_of executions)
           Map.empty sample_history world0))) = []
   \<and> passes (Suc (Suc 0)) (map_of (tools sample_env)) (map_of executions) [''call-1'' \<mapsto> True]
        sample_history world0 =
       (([\<lparr>msg_id = ''m1'', role = ''assistant'', content = [],
           invocations =
             [sample_invocation\<lparr>state := Executed,
                result := Some (Output (RText ''The weather in Paris is sunny''))\<rparr>],
           createdAt = 999\<rparr>],
         [(''call-1'', ''getWeatherInformation'', CityArgs ''Paris'')]), world0)"
proof -
  let ?ts = "map_of (tools sample_env)"
  let ?ex = "map_of executions"
  let ?f = "\<lambda>a. case a of
                  CityArgs city \<Rightarrow> io_return (RText (''The weather in '' @ city @ '' is sunny''))
                | _ \<Rightarrow> reject"
  have mem: "sample_invocation \<in> set (all_invocations sample_history)"
    by (simp add: sample_history_def all_invocations_def)
  have dist: "distinct (map inv_id (all_invocations sample_history))"
    by (simp add: sample_history_def all_invocations_def)
  have pending: "state sample_invocation = Pending"
    by (simp add: sample_invocation_def)
  have name: "tool_name sample_invocation = ''getWeatherInformation''"
    and ident: "inv_id sample_invocation = ''call-1''"
    and args: "arguments sample_invocation = CityArgs ''Paris''"
    by (simp_all add: sample_invocation_def)
  have tool0: "?ts ''getWeatherInformation'' = Some getWeatherInformation"
    by (simp add: tools_def)
  then have tool: "?ts (tool_name sample_invocation) = Some getWeatherInformation"
    by (simp only: name)
  have confirm: "classify getWeatherInformation = RequiresConfirmation"
    by (simp add: classify_def getWeatherInformation_def)
  have impl0: "?ex ''getWeatherInformation'' = Some ?f"
    by (simp only: executions_def map_of.simps fst_conv snd_conv fun_upd_same)
  then have impl: "?ex (tool_name sample_invocation) = Some ?f"
    by (simp only: name)
  note inst = confirmation_resolution [where ts = "?ts" and iv = sample_invocation
      and ms = sample_history and t = getWeatherInformation, OF mem dist pending tool confirm]
  from inst [where D = "[''call-1'' \<mapsto> True]" and ex = "?ex" and f = "?f" and n = "Suc 0"
      and w = world0] impl
  have approved: "calls_of ''call-1''
        (snd (fst (passes (Suc (Suc 0)) ?ts ?ex [''call-1'' \<mapsto> True] sample_history world0))) =
       [(''call-1'', ''getWeatherInformation'', CityArgs ''Paris'')]"
    unfolding ident name args by auto
  from inst [where D = "[''call-1'' \<mapsto> False]" and ex = "?ex" and f = "?f" and n = "Suc 0"
      and w = world0]
  have denied: "sample_invocation\<lparr>state := Denied, result := Some Declined\<rparr>
        \<in> set (all_invocations (fst (fst (passes (Suc (Suc 0)) ?ts ?ex
             [''call-1'' \<mapsto> False] sample_history world0))))
      \<and> calls_of ''call-1''
        (snd (fst (passes (Suc (Suc 0)) ?ts ?ex [''call-1'' \<mapsto> False] sample_history world0))) = []"
    unfolding ident by simp
  from inst [where D = Map.empty and ex = "?ex" and f = "?f" and n = "Suc (Suc 0)"
      and w = world0]
  have waiting: "sample_invocation
        \<in> set (all_invocations (fst (fst (passes (Suc (Suc 0)) ?ts ?ex
             Map.empty sample_history world0))))
      \<and> calls_of ''call-1''
        (snd (fst (passes (Suc (Suc 0)) ?ts ?ex Map.empty sample_history world0))) = []"
    unfolding ident by simp
  have first: "resolve_invocation ?ts ?ex [''call-1'' \<mapsto> True] sample_invocation w =
      ((sample_invocation\<lparr>state := Executed,
          result := Some (Output (RText ''The weather in Paris is sunny''))\<rparr>,
        [(''call-1'', ''getWeatherInformation'', CityArgs ''Paris'')]), w)" for w
    by (simp add: resolve_invocation_def pending tool0 impl0 ident name args
        getWeatherInformation_def execute_now_def capture_def io_return_def)
  have second: "resolve_invocation ?ts ?ex [''call-1'' \<mapsto> True]
      (sample_invocation\<lparr>state := Executed,
          result := Some (Output (RText ''The weather in Paris is sunny''))\<rparr>) w =
      ((sample_invocation\<lparr>state := Executed,
          result := Some (Output (RText ''The weather in Paris is sunny''))\<rparr>, []), w)" for w
    by (simp add: resolve_invocation_def)
  have eval: "passes (Suc (Suc 0)) ?ts ?ex [''call-1'' \<mapsto> True] sample_history world0 =
       (([\<lparr>msg_id = ''m1'', role = ''assistant'', content = [],
           invocations =
             [sample_invocation\<lparr>state := Executed,
                result := Some (Output (RText ''The weather in Paris is sunny''))\<rparr>],
           createdAt = 999\<rparr>],
         [(''call-1'', ''getWeatherInformation'', CityArgs ''Paris'')]), world0)"
    by (simp add: sample_history_def first second)
  from mem dist pending tool confirm approved denied waiting eval show ?thesis
    by (intro conjI) simp_all
qed

end
